theory Spec2Isabelle
  imports Main "HOL-Library.AList" "HOL-Library.Char_ord" "HOL-Library.List_Lexorder" "HOL-Library.Multiset"
begin

section \<open>Strings\<close>

text \<open>
  JavaScript strings are modelled as \<open>string\<close>. \<open>startsWith\<close>, \<open>includes\<close>, \<open>trim\<close> and
  \<open>replace\<close> (with a string pattern: the first occurrence only) are written out on
  character lists. A number rendered inside a template literal is an array index or an
  image index here, so it is a natural number printed in decimal.
\<close>

definition startsWith :: "string \<Rightarrow> string \<Rightarrow> bool" where
  "startsWith s p = (take (length p) s = p)"

fun str_includes :: "string \<Rightarrow> string \<Rightarrow> bool" where
  "str_includes [] p = (p = [])"
| "str_includes (c # cs) p = (startsWith (c # cs) p \<or> str_includes cs p)"

fun replace_first :: "string \<Rightarrow> string \<Rightarrow> string \<Rightarrow> string" where
  "replace_first [] p r = (if p = [] then r else [])"
| "replace_first (c # cs) p r =
     (if startsWith (c # cs) p then r @ drop (length p) (c # cs)
      else c # replace_first cs p r)"

definition is_space :: "char \<Rightarrow> bool" where
  "is_space c = (c \<in> set [CHR '' '', CHR 0x09, CHR 0x0A, CHR 0x0B, CHR 0x0C, CHR 0x0D, CHR 0xA0])"

definition trim :: "string \<Rightarrow> string" where
  "trim s = rev (dropWhile is_space (rev (dropWhile is_space s)))"

definition digit_char :: "nat \<Rightarrow> char" where
  "digit_char d = ''0123456789'' ! d"

fun nat_to_string :: "nat \<Rightarrow> string" where
  "nat_to_string n =
     (if n < 10 then [digit_char n]
      else nat_to_string (n div 10) @ [digit_char (n mod 10)])"

section \<open>JavaScript sets of strings\<close>

text \<open>
  A \<open>Set<string>\<close> keeps its elements in insertion order without repetition; it is
  modelled as the list of its elements in that order. \<open>Array.from\<close> of a set is that
  list, \<open>new Set(xs)\<close> inserts the elements of \<open>xs\<close> one by one.
\<close>

definition Set_has :: "string list \<Rightarrow> string \<Rightarrow> bool" where
  "Set_has s x = (x \<in> set s)"

definition Set_add :: "string list \<Rightarrow> string \<Rightarrow> string list" where
  "Set_add s x = (if Set_has s x then s else s @ [x])"

definition Set_delete :: "string list \<Rightarrow> string \<Rightarrow> string list" where
  "Set_delete s x = filter (\<lambda>y. y \<noteq> x) s"

definition new_Set :: "string list \<Rightarrow> string list" where
  "new_Set xs = fold (\<lambda>x s. Set_add s x) xs []"

definition Array_from :: "string list \<Rightarrow> string list" where
  "Array_from s = s"

section \<open>Data model\<close>

text \<open>
  The declaration of the \<open>Generation\<close> type (create-page/types) is not among the sources.
  Modelled from the spec: the record below has the fields of the GenerationRecord of the
  data model (section 3), which are also the fields \<open>toDbFormat\<close> reads. \<open>outputFormat\<close>
  and \<open>inputImages\<close> may be missing on stored data (the code guards them with \<open>??\<close> and
  \<open>||\<close>), so they are optional.
\<close>

type_synonym blob = string

record input_image =
  img_id :: string
  img_name :: string
  url :: string
  img_width :: nat
  img_height :: nat

record generation =
  gen_id :: string
  prompt :: string
  aspect :: string
  quality :: string
  outputFormat :: "string option"
  provider :: string
  createdAt :: string
  size_width :: nat
  size_height :: nat
  images :: "string list"
  inputImages :: "input_image list option"

definition inputs_or_empty :: "generation \<Rightarrow> input_image list" where
  "inputs_or_empty gen = (case inputImages gen of None \<Rightarrow> [] | Some xs \<Rightarrow> xs)"

section \<open>The local store (storage.ts)\<close>

text \<open>
  One localforage instance holds everything: image blobs under keys that start with
  \<open>img:\<close> and three documents under fixed keys. \<open>has_window\<close> is false on the server,
  where the module's \<open>store\<close> is \<open>null\<close> and every function returns at once.
  The legacy \<open>window.localStorage\<close> is a second key-value store of strings.
\<close>

datatype item = Blob blob | Generations "generation list" | Strings "string list"

record world =
  has_window :: bool
  forage :: "(string \<times> item) list"
  localStorage :: "(string \<times> string) list"

datatype error = StorageError | TypeError | NotAuthenticated | RemoteError

datatype 'a parsed = Throws | NotArray | IsArray 'a

text \<open>
  What the browser decides: whether fetching a URL yields a blob (\<open>urlToBlob\<close> throws
  otherwise), whether a write or a read of a key succeeds, the object URL minted for a
  blob, and the result of \<open>JSON.parse\<close> on a legacy document.
\<close>

record env =
  fetch_url :: "string \<Rightarrow> blob option"
  writable :: "string \<Rightarrow> bool"
  readable :: "string \<Rightarrow> bool"
  createObjectURL :: "blob \<Rightarrow> string"
  parse_generations :: "string \<Rightarrow> generation list parsed"
  parse_favorites :: "string \<Rightarrow> string list parsed"

definition GENERATIONS_KEY :: string where
  "GENERATIONS_KEY = ''seedream:generations''"

definition PENDING_KEY :: string where
  "PENDING_KEY = ''seedream:pending_generations''"

definition FAVORITES_KEY :: string where
  "FAVORITES_KEY = ''seedream:favorites''"

definition getItem :: "env \<Rightarrow> world \<Rightarrow> string \<Rightarrow> error + item option" where
  "getItem e w k = (if readable e k then Inr (map_of (forage w) k) else Inl StorageError)"

definition setItem :: "env \<Rightarrow> world \<Rightarrow> string \<Rightarrow> item \<Rightarrow> error + world" where
  "setItem e w k v =
     (if writable e k then Inr (w\<lparr>forage := AList.update k v (forage w)\<rparr>)
      else Inl StorageError)"

definition removeItem :: "world \<Rightarrow> string \<Rightarrow> world" where
  "removeItem w k = w\<lparr>forage := AList.delete k (forage w)\<rparr>"

definition keys :: "world \<Rightarrow> string list" where
  "keys w = map fst (forage w)"

datatype image_type = Output | Input

definition getImageKey :: "string \<Rightarrow> nat \<Rightarrow> image_type \<Rightarrow> string option \<Rightarrow> string" where
  "getImageKey generationId index type inputId =
     (case (type, inputId) of
        (Input, Some i) \<Rightarrow>
          (if i \<noteq> [] then ''img:'' @ generationId @ '':input:'' @ i
           else ''img:'' @ generationId @ '':'' @ nat_to_string index)
      | _ \<Rightarrow> ''img:'' @ generationId @ '':'' @ nat_to_string index)"

definition isRef :: "string \<Rightarrow> bool" where
  "isRef str = startsWith str ''ref:img:''"

definition getRefKey :: "string \<Rightarrow> string" where
  "getRefKey str = replace_first str ''ref:'' []"

definition makeRef :: "string \<Rightarrow> string" where
  "makeRef key = ''ref:'' @ key"

definition urlToBlob :: "env \<Rightarrow> string \<Rightarrow> error + blob" where
  "urlToBlob e u = (case fetch_url e u of None \<Rightarrow> Inl RemoteError | Some b \<Rightarrow> Inr b)"

text \<open>
  \<open>Promise.all(xs.map(async (x, index) => ...))\<close>: the callbacks run over the array with
  their index; their store operations are taken in array order, each callback seeing
  the store its predecessors left.
\<close>

fun map_async :: "(nat \<Rightarrow> 'a \<Rightarrow> world \<Rightarrow> world \<times> 'b) \<Rightarrow> nat \<Rightarrow> 'a list \<Rightarrow> world \<Rightarrow> world \<times> 'b list" where
  "map_async f i [] w = (w, [])"
| "map_async f i (x # xs) w =
     (case f i x w of (w1, y) \<Rightarrow>
        (case map_async f (Suc i) xs w1 of (w2, ys) \<Rightarrow> (w2, y # ys)))"

subsection \<open>persistGenerations\<close>

definition persist_image :: "env \<Rightarrow> string \<Rightarrow> nat \<Rightarrow> string \<Rightarrow> world \<Rightarrow> world \<times> string" where
  "persist_image e genId index img w =
     (if img = [] then (w, [])
      else if isRef img then (w, img)
      else let key = getImageKey genId index Output None in
        if startsWith img ''blob:'' then (w, makeRef key)
        else (case urlToBlob e img of
                Inl err \<Rightarrow> (w, img)
              | Inr b \<Rightarrow>
                  (case setItem e w key (Blob b) of
                     Inl err \<Rightarrow> (w, img)
                   | Inr w' \<Rightarrow> (w', makeRef key))))"

definition persist_input :: "env \<Rightarrow> string \<Rightarrow> nat \<Rightarrow> input_image \<Rightarrow> world \<Rightarrow> world \<times> input_image" where
  "persist_input e genId index img w =
     (if url img = [] then (w, img)
      else if isRef (url img) then (w, img)
      else let key = getImageKey genId 0 Input (Some (img_id img)) in
        if startsWith (url img) ''blob:'' then (w, img\<lparr>url := makeRef key\<rparr>)
        else (case urlToBlob e (url img) of
                Inl err \<Rightarrow> (w, img)
              | Inr b \<Rightarrow>
                  (case setItem e w key (Blob b) of
                     Inl err \<Rightarrow> (w, img)
                   | Inr w' \<Rightarrow> (w', img\<lparr>url := makeRef key\<rparr>))))"

definition persist_generation :: "env \<Rightarrow> nat \<Rightarrow> generation \<Rightarrow> world \<Rightarrow> world \<times> generation" where
  "persist_generation e n gen w =
     (case map_async (persist_image e (gen_id gen)) 0 (images gen) w of (w1, imgs) \<Rightarrow>
        (case map_async (persist_input e (gen_id gen)) 0 (inputs_or_empty gen) w1 of (w2, ins) \<Rightarrow>
           (w2, gen\<lparr>images := imgs, inputImages := Some ins\<rparr>)))"

definition persistGenerations :: "env \<Rightarrow> world \<Rightarrow> generation list \<Rightarrow> world \<times> (error + unit)" where
  "persistGenerations e w generations =
     (if \<not> has_window w then (w, Inr ())
      else (case map_async (persist_generation e) 0 generations w of (w1, persistedGenerations) \<Rightarrow>
              (case setItem e w1 GENERATIONS_KEY (Generations persistedGenerations) of
                 Inl err \<Rightarrow> (w1, Inl err)
               | Inr w2 \<Rightarrow> (w2, Inr ()))))"

subsection \<open>restoreGenerations\<close>

text \<open>
  Every callback of a \<open>Promise.all(xs.map(async ...))\<close> runs up to its first
  \<open>await\<close> as soon as \<open>map\<close> calls it. For a field that holds a reference that
  first \<open>await\<close> is the \<open>getItem\<close> of its blob; for a legacy field it is the
  fetch inside \<open>urlToBlob\<close>, and the \<open>setItem\<close> that migrates the field is
  called only after the fetch has answered. So the output references of every record are
  read before any migration write of the load, and the input references of a record,
  whose callbacks start once the outputs of that record have settled, are read before
  any input of that record is migrated. The read of a reference therefore takes the store
  \<open>snap\<close> as it was when the callbacks were started, while the writes are threaded
  through \<open>w\<close>: \<open>snap\<close> is the store after the document was read for an output,
  and the store after the outputs of the record were migrated for an input. The records
  themselves are taken in array order.
\<close>

definition restore_image :: "env \<Rightarrow> world \<Rightarrow> string \<Rightarrow> nat \<Rightarrow> string \<Rightarrow> world \<Rightarrow> world \<times> string" where
  "restore_image e snap genId index img w =
     (if img = [] then (w, [])
      else if isRef img then
        (case getItem e snap (getRefKey img) of
           Inl err \<Rightarrow> (w, [])
         | Inr None \<Rightarrow> (w, [])
         | Inr (Some (Blob b)) \<Rightarrow> (w, createObjectURL e b)
         | Inr (Some _) \<Rightarrow> (w, []))
      else
        (case urlToBlob e img of
           Inl err \<Rightarrow> (w, img)
         | Inr b \<Rightarrow>
             (case setItem e w (getImageKey genId index Output None) (Blob b) of
                Inl err \<Rightarrow> (w, img)
              | Inr w' \<Rightarrow> (w', createObjectURL e b))))"

definition restore_input :: "env \<Rightarrow> world \<Rightarrow> string \<Rightarrow> nat \<Rightarrow> input_image \<Rightarrow> world \<Rightarrow> world \<times> input_image" where
  "restore_input e snap genId index inputImg w =
     (if url inputImg = [] then (w, inputImg)
      else if isRef (url inputImg) then
        (case getItem e snap (getRefKey (url inputImg)) of
           Inl err \<Rightarrow> (w, inputImg)
         | Inr None \<Rightarrow> (w, inputImg\<lparr>url := []\<rparr>)
         | Inr (Some (Blob b)) \<Rightarrow> (w, inputImg\<lparr>url := createObjectURL e b\<rparr>)
         | Inr (Some _) \<Rightarrow> (w, inputImg))
      else
        (case urlToBlob e (url inputImg) of
           Inl err \<Rightarrow> (w, inputImg)
         | Inr b \<Rightarrow>
             (case setItem e w (getImageKey genId 0 Input (Some (img_id inputImg))) (Blob b) of
                Inl err \<Rightarrow> (w, inputImg)
              | Inr w' \<Rightarrow> (w', inputImg\<lparr>url := createObjectURL e b\<rparr>))))"

definition restore_generation :: "env \<Rightarrow> world \<Rightarrow> nat \<Rightarrow> generation \<Rightarrow> world \<Rightarrow> world \<times> generation" where
  "restore_generation e snap n gen w =
     (case map_async (restore_image e snap (gen_id gen)) 0 (images gen) w of (w1, imgs) \<Rightarrow>
        (case map_async (restore_input e w1 (gen_id gen)) 0 (inputs_or_empty gen) w1 of (w2, ins) \<Rightarrow>
           (w2, gen\<lparr>images := imgs, inputImages := Some ins\<rparr>)))"

text \<open>
  The stored document is read from localforage and, when nothing is there, from the legacy
  \<open>localStorage\<close> entry, which is removed once it has parsed. A parsed value that is not
  an array makes the function return \<open>null\<close>; it is passed on as an empty blob item,
  which fails \<open>Array.isArray\<close> in the same way.
\<close>

definition legacy_generations :: "env \<Rightarrow> world \<Rightarrow> world \<times> item option" where
  "legacy_generations e w =
     (case map_of (localStorage w) GENERATIONS_KEY of
        None \<Rightarrow> (w, None)
      | Some legacy \<Rightarrow>
          (if legacy = [] then (w, None)
           else (case parse_generations e legacy of
                   Throws \<Rightarrow> (w, None)
                 | NotArray \<Rightarrow>
                     (w\<lparr>localStorage := AList.delete GENERATIONS_KEY (localStorage w)\<rparr>, Some (Blob []))
                 | IsArray gs \<Rightarrow>
                     (w\<lparr>localStorage := AList.delete GENERATIONS_KEY (localStorage w)\<rparr>,
                      Some (Generations gs)))))"

definition restoreGenerations :: "env \<Rightarrow> world \<Rightarrow> world \<times> (error + generation list option)" where
  "restoreGenerations e w =
     (if \<not> has_window w then (w, Inr None)
      else (case getItem e w GENERATIONS_KEY of
              Inl err \<Rightarrow> (w, Inl err)
            | Inr stored \<Rightarrow>
                (case (case stored of None \<Rightarrow> legacy_generations e w | Some v \<Rightarrow> (w, Some v)) of
                   (w1, storedData) \<Rightarrow>
                     (case storedData of
                        Some (Generations gs) \<Rightarrow>
                          (case map_async (restore_generation e w1) 0 gs w1 of
                             (w2, hydratedGenerations) \<Rightarrow> (w2, Inr (Some hydratedGenerations)))
                      | Some (Strings []) \<Rightarrow> (w1, Inr (Some []))
                      | Some (Strings (x # xs)) \<Rightarrow> (w1, Inl TypeError)
                      | _ \<Rightarrow> (w1, Inr None)))))"

subsection \<open>Pending records\<close>

definition clearPending :: "world \<Rightarrow> world" where
  "clearPending w = (if \<not> has_window w then w else removeItem w PENDING_KEY)"

definition save_pending_generation :: "env \<Rightarrow> nat \<Rightarrow> generation \<Rightarrow> world \<Rightarrow> world \<times> generation" where
  "save_pending_generation e n gen w =
     (case map_async (persist_input e (gen_id gen)) 0 (inputs_or_empty gen) w of (w1, ins) \<Rightarrow>
        (w1, gen\<lparr>inputImages := Some ins\<rparr>))"

definition savePending :: "env \<Rightarrow> world \<Rightarrow> generation list \<Rightarrow> world \<times> (error + unit)" where
  "savePending e w pending =
     (if \<not> has_window w then (w, Inr ())
      else (case map_async (save_pending_generation e) 0 pending w of (w1, persistedPending) \<Rightarrow>
              (case setItem e w1 PENDING_KEY (Generations persistedPending) of
                 Inl err \<Rightarrow> (w1, Inl err)
               | Inr w2 \<Rightarrow> (w2, Inr ()))))"

subsection \<open>cleanOrphanedImages\<close>

definition collectKeys :: "generation \<Rightarrow> string list \<Rightarrow> string list" where
  "collectKeys gen referencedKeys =
     (let after_images =
            fold (\<lambda>(index, img) acc.
                    if img = [] then acc
                    else Set_add acc (if isRef img then getRefKey img
                                      else getImageKey (gen_id gen) index Output None))
                 (enumerate 0 (images gen)) referencedKeys
      in fold (\<lambda>img acc.
                 if url img = [] then acc
                 else Set_add acc (if isRef (url img) then getRefKey (url img)
                                   else getImageKey (gen_id gen) 0 Input (Some (img_id img))))
              (inputs_or_empty gen) after_images)"

definition referencedKeys :: "generation list \<Rightarrow> generation list \<Rightarrow> string list" where
  "referencedKeys storedGenerations storedPending =
     fold collectKeys storedPending (fold collectKeys storedGenerations [])"

text \<open>
  A snapshot argument that is \<open>null\<close> or missing is read from the store. A stored value
  that is not an array of records makes \<open>forEach\<close> or \<open>gen.images\<close> throw.
\<close>

definition snapshot_of :: "env \<Rightarrow> world \<Rightarrow> string \<Rightarrow> generation list option \<Rightarrow> error + generation list" where
  "snapshot_of e w k given =
     (case given of
        Some gs \<Rightarrow> Inr gs
      | None \<Rightarrow>
          (case getItem e w k of
             Inl err \<Rightarrow> Inl err
           | Inr None \<Rightarrow> Inr []
           | Inr (Some (Generations gs)) \<Rightarrow> Inr gs
           | Inr (Some (Strings [])) \<Rightarrow> Inr []
           | Inr (Some _) \<Rightarrow> Inl TypeError))"

definition cleanOrphanedImages ::
  "env \<Rightarrow> world \<Rightarrow> generation list option \<Rightarrow> generation list option \<Rightarrow> world \<times> (error + unit)" where
  "cleanOrphanedImages e w generations pending =
     (if \<not> has_window w then (w, Inr ())
      else (case snapshot_of e w GENERATIONS_KEY generations of
              Inl err \<Rightarrow> (w, Inl err)
            | Inr storedGenerations \<Rightarrow>
                (case snapshot_of e w PENDING_KEY pending of
                   Inl err \<Rightarrow> (w, Inl err)
                 | Inr storedPending \<Rightarrow>
                     (let referenced = referencedKeys storedGenerations storedPending;
                          removals = filter (\<lambda>key. startsWith key ''img:'' \<and> \<not> Set_has referenced key)
                                            (keys w)
                      in (fold (\<lambda>key w'. removeItem w' key) removals w, Inr ())))))"

subsection \<open>Favorites\<close>

definition persistFavorites :: "env \<Rightarrow> world \<Rightarrow> string list \<Rightarrow> world \<times> (error + unit)" where
  "persistFavorites e w favorites =
     (if \<not> has_window w then (w, Inr ())
      else (case setItem e w FAVORITES_KEY (Strings (Array_from favorites)) of
              Inl err \<Rightarrow> (w, Inl err)
            | Inr w' \<Rightarrow> (w', Inr ())))"

definition legacy_favorites :: "env \<Rightarrow> world \<Rightarrow> world \<times> string list option" where
  "legacy_favorites e w =
     (case map_of (localStorage w) FAVORITES_KEY of
        None \<Rightarrow> (w, None)
      | Some legacy \<Rightarrow>
          (if legacy = [] then (w, None)
           else (case parse_favorites e legacy of
                   Throws \<Rightarrow> (w, None)
                 | NotArray \<Rightarrow>
                     (w\<lparr>localStorage := AList.delete FAVORITES_KEY (localStorage w)\<rparr>, None)
                 | IsArray xs \<Rightarrow>
                     (w\<lparr>localStorage := AList.delete FAVORITES_KEY (localStorage w)\<rparr>,
                      Some (new_Set xs)))))"

text \<open>
  An array of records under the favorites key cannot be a \<open>Set<string>\<close>; the typed
  program never stores one there, and the model reports it as a type error.
\<close>

definition restoreFavorites :: "env \<Rightarrow> world \<Rightarrow> world \<times> (error + string list)" where
  "restoreFavorites e w =
     (if \<not> has_window w then (w, Inr (new_Set []))
      else (case getItem e w FAVORITES_KEY of
              Inl err \<Rightarrow> (w, Inl err)
            | Inr None \<Rightarrow>
                (case legacy_favorites e w of
                   (w1, Some s) \<Rightarrow> (w1, Inr s)
                 | (w1, None) \<Rightarrow> (w1, Inr (new_Set [])))
            | Inr (Some (Strings stored)) \<Rightarrow> (w, Inr (new_Set stored))
            | Inr (Some (Generations [])) \<Rightarrow> (w, Inr (new_Set []))
            | Inr (Some (Generations (g # gs))) \<Rightarrow> (w, Inl TypeError)
            | Inr (Some (Blob b)) \<Rightarrow> (w, Inr (new_Set []))))"

section \<open>Favorites in the page component\<close>

text \<open>
  \<open>handleToggleFavorite\<close> of create-page.tsx: the state updater passed to
  \<open>setFavorites\<close>, applied to the previous set.
\<close>

definition favoriteId :: "string \<Rightarrow> nat \<Rightarrow> string" where
  "favoriteId generationId imageIndex = generationId @ '':'' @ nat_to_string imageIndex"

definition handleToggleFavorite :: "string \<Rightarrow> nat \<Rightarrow> string list \<Rightarrow> string list" where
  "handleToggleFavorite generationId imageIndex prev =
     (let next = new_Set prev in
      if Set_has next (favoriteId generationId imageIndex)
      then Set_delete next (favoriteId generationId imageIndex)
      else Set_add next (favoriteId generationId imageIndex))"

section \<open>Concrete environments for the witnesses\<close>

definition w0 :: world where
  "w0 = \<lparr>has_window = True, forage = [], localStorage = []\<rparr>"

definition e0 :: env where
  "e0 = \<lparr>fetch_url = (\<lambda>u. Some u), writable = (\<lambda>k. True), readable = (\<lambda>k. True),
          createObjectURL = (\<lambda>b. ''blob:'' @ b),
          parse_generations = (\<lambda>s. Throws), parse_favorites = (\<lambda>s. Throws)\<rparr>"

section \<open>Keys a record refers to\<close>

text \<open>
  The key \<open>collectKeys\<close> adds for one output slot and for one input image, and the keys
  of all non-empty fields of a record; the theorems on garbage collection are stated
  with them.
\<close>

definition output_key :: "generation \<Rightarrow> nat \<Rightarrow> string \<Rightarrow> string" where
  "output_key gen index img =
     (if isRef img then getRefKey img else getImageKey (gen_id gen) index Output None)"

definition input_key :: "generation \<Rightarrow> input_image \<Rightarrow> string" where
  "input_key gen img =
     (if isRef (url img) then getRefKey (url img)
      else getImageKey (gen_id gen) 0 Input (Some (img_id img)))"

definition record_keys :: "generation \<Rightarrow> string list" where
  "record_keys gen =
     map (\<lambda>(index, img). output_key gen index img)
         (filter (\<lambda>(index, img). img \<noteq> []) (enumerate 0 (images gen))) @
     map (input_key gen) (filter (\<lambda>img. url img \<noteq> []) (inputs_or_empty gen))"

definition g1 :: generation where
  "g1 = \<lparr>gen_id = ''g1'', prompt = ''a cat'', aspect = ''square-1-1'', quality = ''2k'',
          outputFormat = Some ''png'', provider = ''gemini'', createdAt = ''2025-01-01T00:00:00.000Z'',
          size_width = 1024, size_height = 1024, images = [''blob:abc'', []],
          inputImages = Some [\<lparr>img_id = ''att-1'', img_name = ''ref.png'', url = ''ref:img:g1:input:att-1'',
                                 img_width = 10, img_height = 10\<rparr>]\<rparr>"

definition w_gc :: world where
  "w_gc = \<lparr>has_window = True,
           forage = [(''img:g1:0'', Blob ''x''), (''img:old:0'', Blob ''y''),
                     (''img:g1:input:att-1'', Blob ''z''), (''seedream:favorites'', Strings [])],
           localStorage = []\<rparr>"

section \<open>Store growth and reference-only records\<close>

text \<open>
  \<open>store_le a b\<close>: every key of \<open>a\<close> is a key of \<open>b\<close>. Hydration and dehydration only
  add keys. \<open>all_refs gen\<close>: every non-empty image field of the record is already a
  reference string (there is no legacy inline data to migrate). \<open>g_stored\<close> is such a
  record, as \<open>persistGenerations\<close> leaves it in the stored document.
\<close>

definition store_le :: "world \<Rightarrow> world \<Rightarrow> bool" where
  "store_le a b = (set (keys a) \<subseteq> set (keys b))"

definition all_refs :: "generation \<Rightarrow> bool" where
  "all_refs gen = ((\<forall>img \<in> set (images gen). img = [] \<or> isRef img) \<and>
                   (\<forall>inp \<in> set (inputs_or_empty gen). url inp = [] \<or> isRef (url inp)))"

definition g_stored :: generation where
  "g_stored = \<lparr>gen_id = ''g1'', prompt = ''a cat'', aspect = ''square-1-1'', quality = ''2k'',
          outputFormat = Some ''png'', provider = ''gemini'', createdAt = ''2025-01-01T00:00:00.000Z'',
          size_width = 1024, size_height = 1024, images = [''ref:img:g1:0'', ''ref:img:g1:1''],
          inputImages = Some [\<lparr>img_id = ''att-1'', img_name = ''ref.png'', url = ''ref:img:g1:input:att-1'',
                                 img_width = 10, img_height = 10\<rparr>]\<rparr>"

section \<open>Hydrated fields\<close>

text \<open>
  \<open>output_legacy_keys gen\<close> and \<open>input_legacy_keys gen\<close>: the keys under which a load
  writes the legacy output slots, respectively the legacy input images, of a record, one
  for every non-empty field that is not a reference; \<open>legacy_keys gen\<close>: both together;
  \<open>migration_keys gs\<close>: those of all records of the document.
  \<open>keys_before_inputs gs i\<close>: the keys that can be written before the input references
  of record \<open>i\<close> are read, which are the keys of its own legacy outputs and the keys of
  the legacy fields of the other records; its own legacy inputs are written after the
  read. \<open>same_outside K a b\<close>: the stores \<open>a\<close> and \<open>b\<close> hold the same item under every
  key outside \<open>K\<close>.

  \<open>output_hydrated e w g j img h\<close> and \<open>input_hydrated e w K g inp q\<close> say what a hydrated
  field is, given the stored field and the store \<open>w\<close> the load started from. An empty
  field stays empty. A reference becomes the handle of the blob under its key; when no
  blob is there it becomes the empty string. A read that fails empties an output slot and
  leaves an input image as stored. A legacy field becomes the handle of its fetched
  bytes once they are written under the deterministic key, and stays as stored when the
  fetch or the write fails. For an input image the reference is looked up in \<open>w\<close> only
  when its key is not among the keys \<open>K\<close> that can be written before the read.

  \<open>g_mixed\<close> is a stored record that has, among its outputs and among its inputs, a
  reference whose blob is stored, a reference whose blob is missing and a legacy data
  URL; its last input refers to the key under which the legacy input is migrated by the
  same load. \<open>w_mixed\<close> is the store that holds it.
\<close>

definition output_legacy_keys :: "generation \<Rightarrow> string list" where
  "output_legacy_keys gen =
     map (\<lambda>(index, img). getImageKey (gen_id gen) index Output None)
         (filter (\<lambda>(index, img). img \<noteq> [] \<and> \<not> isRef img) (enumerate 0 (images gen)))"

definition input_legacy_keys :: "generation \<Rightarrow> string list" where
  "input_legacy_keys gen =
     map (\<lambda>inp. getImageKey (gen_id gen) 0 Input (Some (img_id inp)))
         (filter (\<lambda>inp. url inp \<noteq> [] \<and> \<not> isRef (url inp)) (inputs_or_empty gen))"

definition legacy_keys :: "generation \<Rightarrow> string list" where
  "legacy_keys gen = output_legacy_keys gen @ input_legacy_keys gen"

definition migration_keys :: "generation list \<Rightarrow> string list" where
  "migration_keys gs = concat (map legacy_keys gs)"

definition keys_before_inputs :: "generation list \<Rightarrow> nat \<Rightarrow> string list" where
  "keys_before_inputs gs i =
     output_legacy_keys (gs ! i) @ concat (map legacy_keys (take i gs @ drop (Suc i) gs))"

definition same_outside :: "string set \<Rightarrow> world \<Rightarrow> world \<Rightarrow> bool" where
  "same_outside K a b = (\<forall>k. k \<notin> K \<longrightarrow> map_of (forage b) k = map_of (forage a) k)"

definition output_hydrated :: "env \<Rightarrow> world \<Rightarrow> string \<Rightarrow> nat \<Rightarrow> string \<Rightarrow> string \<Rightarrow> bool" where
  "output_hydrated e w g j img h =
     ((img = [] \<longrightarrow> h = []) \<and>
      (isRef img \<and> \<not> readable e (getRefKey img) \<longrightarrow> h = []) \<and>
      (isRef img \<and> readable e (getRefKey img) \<longrightarrow>
         (case map_of (forage w) (getRefKey img) of
            None \<Rightarrow> h = []
          | Some (Blob b) \<Rightarrow> h = createObjectURL e b
          | Some _ \<Rightarrow> h = [])) \<and>
      (img \<noteq> [] \<and> \<not> isRef img \<longrightarrow>
         (case fetch_url e img of
            None \<Rightarrow> h = img
          | Some b \<Rightarrow>
              (if writable e (''img:'' @ g @ '':'' @ nat_to_string j) then h = createObjectURL e b
               else h = img))))"

definition input_hydrated :: "env \<Rightarrow> world \<Rightarrow> string list \<Rightarrow> string \<Rightarrow> input_image \<Rightarrow> input_image \<Rightarrow> bool" where
  "input_hydrated e w K g inp q =
     (q = inp\<lparr>url := url q\<rparr> \<and>
      (url inp = [] \<longrightarrow> url q = []) \<and>
      (isRef (url inp) \<and> \<not> readable e (getRefKey (url inp)) \<longrightarrow> url q = url inp) \<and>
      (isRef (url inp) \<and> readable e (getRefKey (url inp)) \<and> getRefKey (url inp) \<notin> set K \<longrightarrow>
         (case map_of (forage w) (getRefKey (url inp)) of
            None \<Rightarrow> url q = []
          | Some (Blob b) \<Rightarrow> url q = createObjectURL e b
          | Some _ \<Rightarrow> url q = url inp)) \<and>
      (url inp \<noteq> [] \<and> \<not> isRef (url inp) \<longrightarrow>
         (case fetch_url e (url inp) of
            None \<Rightarrow> url q = url inp
          | Some b \<Rightarrow>
              (if writable e (getImageKey g 0 Input (Some (img_id inp))) then url q = createObjectURL e b
               else url q = url inp))))"

definition g_mixed :: generation where
  "g_mixed = \<lparr>gen_id = ''g2'', prompt = ''a dog'', aspect = ''square-1-1'', quality = ''2k'',
          outputFormat = Some ''png'', provider = ''gemini'', createdAt = ''2025-01-02T00:00:00.000Z'',
          size_width = 1024, size_height = 1024,
          images = [''ref:img:g2:0'', ''ref:img:g2:1'', ''data:image/png;base64,AAAA''],
          inputImages = Some [\<lparr>img_id = ''att-1'', img_name = ''one.png'', url = ''ref:img:g2:input:att-1'',
                                 img_width = 10, img_height = 10\<rparr>,
                              \<lparr>img_id = ''att-2'', img_name = ''two.png'', url = ''ref:img:g2:input:att-2'',
                                 img_width = 10, img_height = 10\<rparr>,
                              \<lparr>img_id = ''att-3'', img_name = ''three.png'', url = ''data:image/png;base64,BBBB'',
                                 img_width = 10, img_height = 10\<rparr>,
                              \<lparr>img_id = ''att-4'', img_name = ''four.png'', url = ''ref:img:g2:input:att-3'',
                                 img_width = 10, img_height = 10\<rparr>]\<rparr>"

definition w_mixed :: world where
  "w_mixed = \<lparr>has_window = True,
           forage = [(''img:g2:0'', Blob ''x''), (''img:g2:input:att-1'', Blob ''y''),
                     (''seedream:generations'', Generations [g_mixed])],
           localStorage = []\<rparr>"

section \<open>Dehydrated fields\<close>

text \<open>
  \<open>has_blob w k\<close>: a get on \<open>k\<close> returns stored bytes. \<open>dehydrate_ok e\<close>: every fetch and
  every write succeeds. \<open>image_dehydrated\<close> and \<open>input_dehydrated\<close> say what a persisted
  field is, given the field of the application state it came from: empty stays empty,
  a reference is kept, anything else becomes \<open>ref:\<close> followed by the deterministic key,
  and the key holds a blob unless the field was a \<open>blob:\<close> handle, for which nothing is
  written.
\<close>

definition has_blob :: "world \<Rightarrow> string \<Rightarrow> bool" where
  "has_blob w k = (case map_of (forage w) k of Some (Blob b) \<Rightarrow> True | _ \<Rightarrow> False)"

definition blob_le :: "world \<Rightarrow> world \<Rightarrow> bool" where
  "blob_le a b = (\<forall>k. startsWith k ''img:'' \<longrightarrow> has_blob a k \<longrightarrow> has_blob b k)"

definition image_dehydrated :: "world \<Rightarrow> string \<Rightarrow> nat \<Rightarrow> string \<Rightarrow> string \<Rightarrow> bool" where
  "image_dehydrated wz g j img p =
     ((img = [] \<longrightarrow> p = []) \<and>
      (img \<noteq> [] \<longrightarrow> isRef p) \<and>
      (isRef img \<longrightarrow> p = img) \<and>
      (img \<noteq> [] \<and> \<not> isRef img \<longrightarrow>
         p = ''ref:'' @ ''img:'' @ g @ '':'' @ nat_to_string j \<and>
         (\<not> startsWith img ''blob:'' \<longrightarrow> has_blob wz (''img:'' @ g @ '':'' @ nat_to_string j))))"

definition input_dehydrated :: "world \<Rightarrow> string \<Rightarrow> input_image \<Rightarrow> input_image \<Rightarrow> bool" where
  "input_dehydrated wz g inp q =
     (q = inp\<lparr>url := url q\<rparr> \<and>
      (url inp = [] \<longrightarrow> url q = []) \<and>
      (url inp \<noteq> [] \<longrightarrow> isRef (url q)) \<and>
      (isRef (url inp) \<longrightarrow> url q = url inp) \<and>
      (url inp \<noteq> [] \<and> \<not> isRef (url inp) \<and> img_id inp \<noteq> [] \<longrightarrow>
         url q = ''ref:'' @ ''img:'' @ g @ '':input:'' @ img_id inp \<and>
         (\<not> startsWith (url inp) ''blob:'' \<longrightarrow>
            has_blob wz (''img:'' @ g @ '':input:'' @ img_id inp))))"

definition dehydrate_ok :: "env \<Rightarrow> bool" where
  "dehydrate_ok e = ((\<forall>k. writable e k) \<and> (\<forall>u. fetch_url e u \<noteq> None))"

definition g_fresh :: generation where
  "g_fresh = \<lparr>gen_id = ''g2'', prompt = ''a dog'', aspect = ''square-1-1'', quality = ''2k'',
          outputFormat = Some ''png'', provider = ''gemini'', createdAt = ''2025-01-02T00:00:00.000Z'',
          size_width = 1024, size_height = 1024, images = [''data:image/png;base64,AAAA'', []],
          inputImages = Some [\<lparr>img_id = ''att-7'', img_name = ''in.png'', url = ''https://x/in.png'',
                                 img_width = 10, img_height = 10\<rparr>]\<rparr>"

section \<open>The page component (create-page.tsx)\<close>

subsection \<open>loadPending (storage.ts)\<close>

text \<open>
  \<open>loadPending\<close> has no \<open>try\<close>: a failing read, or a stored value that is not a blob
  handed to \<open>createObjectURL\<close>, rejects the whole promise. It does not write the store.
\<close>

fun promise_all :: "(error + 'a) list \<Rightarrow> error + 'a list" where
  "promise_all [] = Inr []"
| "promise_all (x # xs) =
     (case x of
        Inl err \<Rightarrow> Inl err
      | Inr y \<Rightarrow> (case promise_all xs of Inl err \<Rightarrow> Inl err | Inr ys \<Rightarrow> Inr (y # ys)))"

definition load_pending_input :: "env \<Rightarrow> world \<Rightarrow> input_image \<Rightarrow> error + input_image" where
  "load_pending_input e w img =
     (if isRef (url img) then
        (case getItem e w (getRefKey (url img)) of
           Inl err \<Rightarrow> Inl err
         | Inr None \<Rightarrow> Inr img
         | Inr (Some (Blob b)) \<Rightarrow> Inr (img\<lparr>url := createObjectURL e b\<rparr>)
         | Inr (Some _) \<Rightarrow> Inl TypeError)
      else Inr img)"

definition load_pending_generation :: "env \<Rightarrow> world \<Rightarrow> generation \<Rightarrow> error + generation" where
  "load_pending_generation e w gen =
     (case promise_all (map (load_pending_input e w) (inputs_or_empty gen)) of
        Inl err \<Rightarrow> Inl err
      | Inr ins \<Rightarrow> Inr (gen\<lparr>inputImages := Some ins\<rparr>))"

definition loadPending :: "env \<Rightarrow> world \<Rightarrow> error + generation list" where
  "loadPending e w =
     (if \<not> has_window w then Inr []
      else (case getItem e w PENDING_KEY of
              Inl err \<Rightarrow> Inl err
            | Inr (Some (Generations stored)) \<Rightarrow> promise_all (map (load_pending_generation e w) stored)
            | Inr (Some (Strings (x # xs))) \<Rightarrow> Inl TypeError
            | Inr _ \<Rightarrow> Inr []))"

subsection \<open>State of the component\<close>

text \<open>
  The part of the component's state the persistence engine uses: the completed and the
  pending list, the favorites, the two API keys, and the refs that order start-up.
  \<open>Math.random().toString(36).slice(2, 10)\<close> is the \<open>n\<close>-th value of a sequence \<open>rnd\<close> of
  strings the browser supplies; \<open>draws\<close> counts the values used.
\<close>

record page =
  generations :: "generation list"
  pendingGenerations :: "generation list"
  favorites :: "string list"
  apiKey :: string
  geminiApiKey :: string
  storageHydratedRef :: bool
  favoritesHydratedRef :: bool
  pendingHydratedRef :: bool
  pendingReconciledRef :: bool
  cleanupRanRef :: bool
  draws :: nat

definition initial_page :: page where
  "initial_page = \<lparr>generations = [], pendingGenerations = [], favorites = [], apiKey = [],
     geminiApiKey = [], storageHydratedRef = False, favoritesHydratedRef = False,
     pendingHydratedRef = False, pendingReconciledRef = False, cleanupRanRef = False, draws = 0\<rparr>"

definition defaultOutputFormat :: string where
  "defaultOutputFormat = ''png''"

definition createId :: "string \<Rightarrow> string \<Rightarrow> string" where
  "createId prefix random36 = prefix @ ''-'' @ random36"

definition with_outputFormat :: "generation \<Rightarrow> generation" where
  "with_outputFormat generation =
     generation\<lparr>outputFormat :=
       Some (case outputFormat generation of None \<Rightarrow> defaultOutputFormat | Some f \<Rightarrow> f)\<rparr>"

subsection \<open>Start-up: loadState\<close>

text \<open>
  The mount effect, for a component that stays mounted. The settings it also restores
  (prompt, aspect, quality, provider, image count) play no part here and are left out.
  The three restores run under one \<open>Promise.all\<close>: when one of them rejects, the results
  of all three are dropped.
\<close>

definition stored_key :: "world \<Rightarrow> string \<Rightarrow> string \<Rightarrow> string" where
  "stored_key w k current = (case map_of (localStorage w) k of None \<Rightarrow> current | Some v \<Rightarrow> v)"

definition loadState :: "env \<Rightarrow> world \<Rightarrow> page \<Rightarrow> world \<times> page" where
  "loadState e w p =
     (if \<not> has_window w then (w, p)
      else
        let p1 = p\<lparr>apiKey := stored_key w ''seedream:api_key'' (apiKey p),
                    geminiApiKey := stored_key w ''seedream:gemini_api_key'' (geminiApiKey p)\<rparr>
        in (case restoreGenerations e w of (w1, restoredGenerations) \<Rightarrow>
             (case restoreFavorites e w1 of (w2, restoredFavorites) \<Rightarrow>
                (let p2 =
                   (case (restoredGenerations, loadPending e w1, restoredFavorites) of
                      (Inr generationData, Inr restoredPending, Inr favoritesData) \<Rightarrow>
                        p1\<lparr>generations :=
                             (case generationData of
                                None \<Rightarrow> generations p1
                              | Some gs \<Rightarrow> map with_outputFormat gs),
                           pendingGenerations := map with_outputFormat restoredPending,
                           favorites := favoritesData,
                           favoritesHydratedRef := True,
                           pendingHydratedRef := (length restoredPending > 0)\<rparr>
                    | _ \<Rightarrow> p1\<lparr>favorites := new_Set [], favoritesHydratedRef := True\<rparr>)
                 in (w2, p2\<lparr>storageHydratedRef := True,
                            pendingReconciledRef :=
                              (if \<not> pendingHydratedRef p2 then True else pendingReconciledRef p2)\<rparr>)))))"

subsection \<open>The pending reconciliation effect\<close>

fun reconcile_ids :: "(nat \<Rightarrow> string) \<Rightarrow> string list \<Rightarrow> nat \<Rightarrow> generation list \<Rightarrow> nat \<times> generation list" where
  "reconcile_ids rnd existingIds n [] = (n, [])"
| "reconcile_ids rnd existingIds n (gen # rest) =
     (if Set_has existingIds (gen_id gen)
      then (case reconcile_ids rnd existingIds (Suc n) rest of
              (n', reconciled) \<Rightarrow> (n', gen\<lparr>gen_id := createId ''generation'' (rnd n)\<rparr> # reconciled))
      else (case reconcile_ids rnd existingIds n rest of
              (n', reconciled) \<Rightarrow> (n', gen # reconciled)))"

definition pending_reconciliation :: "(nat \<Rightarrow> string) \<Rightarrow> world \<Rightarrow> page \<Rightarrow> world \<times> page" where
  "pending_reconciliation rnd w p =
     (if \<not> storageHydratedRef p \<or> pendingReconciledRef p \<or> \<not> pendingHydratedRef p then (w, p)
      else if length (pendingGenerations p) = 0 then
        (w, p\<lparr>pendingReconciledRef := True, pendingHydratedRef := False\<rparr>)
      else if length (trim (apiKey p)) = 0 \<and> length (trim (geminiApiKey p)) = 0 then
        (clearPending w,
         p\<lparr>pendingGenerations := [], pendingReconciledRef := True, pendingHydratedRef := False\<rparr>)
      else
        (case reconcile_ids rnd (new_Set (map gen_id (generations p))) (draws p) (pendingGenerations p) of
           (n', reconciled) \<Rightarrow>
             (w, p\<lparr>generations := reconciled @ generations p, pendingGenerations := [],
                    pendingReconciledRef := True, pendingHydratedRef := False, draws := n'\<rparr>)))"

subsection \<open>Merging cloud records into local state\<close>

text \<open>
  \<open>onGenerationsLoaded\<close>: the updater given to \<open>setGenerations\<close>. \<open>Date.parse\<close> of the
  \<open>createdAt\<close> string is \<open>getTime\<close>, a parameter; \<open>Array.prototype.sort\<close> is stable, and the
  comparator orders by time, newest first.
\<close>

definition onGenerationsLoaded :: "(string \<Rightarrow> int) \<Rightarrow> generation list \<Rightarrow> generation list \<Rightarrow> generation list" where
  "onGenerationsLoaded getTime cloudGenerations local =
     (let localIds = new_Set (map gen_id local);
          cloudOnly = filter (\<lambda>g. \<not> Set_has localIds (gen_id g)) cloudGenerations
      in if length cloudOnly = 0 then local
         else sort_key (\<lambda>g. - getTime (createdAt g)) (local @ cloudOnly))"

definition onFavoritesLoaded :: "string list \<Rightarrow> string list \<Rightarrow> string list" where
  "onFavoritesLoaded cloudFavorites local = new_Set (local @ cloudFavorites)"

section \<open>Start-up states\<close>

text \<open>
  \<open>no_keys\<close> is the test of the reconciliation effect: both API keys are empty once
  trimmed. \<open>recovery_due\<close> is the state in which the effect has work to do: storage has
  been hydrated, pending records were restored and have not been reconciled yet.
  \<open>w_crash\<close> is a store left behind by a session that ended with two generations in
  flight, one of them under an id that a completed record also has.
\<close>

definition no_keys :: "page \<Rightarrow> bool" where
  "no_keys p = (trim (apiKey p) = [] \<and> trim (geminiApiKey p) = [])"

definition recovery_due :: "page \<Rightarrow> bool" where
  "recovery_due p = (storageHydratedRef p \<and> \<not> pendingReconciledRef p \<and> pendingHydratedRef p \<and>
                     pendingGenerations p \<noteq> [])"

definition g_pending :: generation where
  "g_pending = \<lparr>gen_id = ''pending-1'', prompt = ''a fox'', aspect = ''square-1-1'', quality = ''2k'',
          outputFormat = None, provider = ''gemini'', createdAt = ''2025-01-03T00:00:00.000Z'',
          size_width = 1024, size_height = 1024, images = [[], []],
          inputImages = Some []\<rparr>"

definition g_clash :: generation where
  "g_clash = \<lparr>gen_id = ''g1'', prompt = ''an owl'', aspect = ''square-1-1'', quality = ''2k'',
          outputFormat = Some ''png'', provider = ''fal'', createdAt = ''2025-01-04T00:00:00.000Z'',
          size_width = 1024, size_height = 1024, images = [[]],
          inputImages = Some []\<rparr>"

definition w_crash :: "(string \<times> string) list \<Rightarrow> world" where
  "w_crash stored_settings = \<lparr>has_window = True,
           forage = [(''img:g1:0'', Blob ''x''), (''seedream:generations'', Generations [g_stored]),
                     (''seedream:pending_generations'', Generations [g_pending, g_clash])],
           localStorage = stored_settings\<rparr>"

definition rnd0 :: "nat \<Rightarrow> string" where
  "rnd0 n = ''k3x9q2'' @ nat_to_string n"

definition p_crash :: "string \<Rightarrow> page" where
  "p_crash gemini_key =
     \<lparr>generations = [g_stored\<lparr>images := [''blob:x'', []],
                        inputImages := Some [\<lparr>img_id = ''att-1'', img_name = ''ref.png'', url = [],
                                                img_width = 10, img_height = 10\<rparr>]\<rparr>],
      pendingGenerations = [g_pending\<lparr>outputFormat := Some ''png''\<rparr>, g_clash],
      favorites = [], apiKey = [], geminiApiKey = gemini_key,
      storageHydratedRef = True, favoritesHydratedRef = True, pendingHydratedRef = True,
      pendingReconciledRef = False, cleanupRanRef = False, draws = 0\<rparr>"

section \<open>Ids of promoted pending records\<close>

text \<open>
  \<open>collides p gen\<close>: the id of \<open>gen\<close> is the id of a record of the completed list of
  \<open>p\<close>. \<open>draw_index p i\<close>: the number of the random draw that \<open>createId\<close> takes for the
  pending record at position \<open>i\<close>, one draw being taken for every colliding record in
  front of it. \<open>p_reused\<close> is a start-up state whose completed list holds the ids
  \<open>g1\<close> and \<open>generation-x\<close> and whose pending list holds one record with the id \<open>g1\<close>;
  \<open>rnd_x\<close> is a random source whose draws all read \<open>x\<close>.
\<close>

definition collides :: "page \<Rightarrow> generation \<Rightarrow> bool" where
  "collides p gen = (gen_id gen \<in> set (map gen_id (generations p)))"

definition draw_index :: "page \<Rightarrow> nat \<Rightarrow> nat" where
  "draw_index p i = draws p + length (filter (collides p) (take i (pendingGenerations p)))"

definition g_old :: generation where
  "g_old = \<lparr>gen_id = ''generation-x'', prompt = ''a hen'', aspect = ''square-1-1'', quality = ''2k'',
          outputFormat = Some ''png'', provider = ''fal'', createdAt = ''2025-01-02T00:00:00.000Z'',
          size_width = 1024, size_height = 1024, images = [''blob:h''],
          inputImages = Some []\<rparr>"

definition p_reused :: page where
  "p_reused = (p_crash ''k-123'')\<lparr>generations := generations (p_crash ''k-123'') @ [g_old],
                                  pendingGenerations := [g_clash]\<rparr>"

definition rnd_x :: "nat \<Rightarrow> string" where
  "rnd_x n = ''x''"

section \<open>The remote store (supabase/cloud-storage)\<close>

text \<open>
  A row of the \<open>generations\<close> table, as \<open>toDbFormat\<close> builds it, and a row of the
  \<open>favorites\<close> table as \<open>saveFavoritesToCloud\<close> builds it; its \<open>image_index\<close> is the
  result of \<open>parseInt\<close>, \<open>None\<close> for \<open>NaN\<close>.
\<close>

record generation_row =
  row_id :: string
  row_user_id :: string
  row_prompt :: string
  row_aspect :: string
  row_quality :: string
  row_output_format :: "string option"
  row_provider :: string
  row_created_at :: string
  row_size_width :: nat
  row_size_height :: nat
  row_images :: "string list"
  row_input_images :: "input_image list option"

record favorite_row =
  fav_user_id :: string
  fav_generation_id :: string
  fav_image_index :: "int option"

definition toDbFormat :: "generation \<Rightarrow> string \<Rightarrow> generation_row" where
  "toDbFormat generation userId =
     \<lparr>row_id = gen_id generation, row_user_id = userId, row_prompt = prompt generation,
      row_aspect = aspect generation, row_quality = quality generation,
      row_output_format = outputFormat generation, row_provider = provider generation,
      row_created_at = createdAt generation, row_size_width = size_width generation,
      row_size_height = size_height generation, row_images = images generation,
      row_input_images = inputImages generation\<rparr>"

definition fromDbFormat :: "generation_row \<Rightarrow> generation" where
  "fromDbFormat row =
     \<lparr>gen_id = row_id row, prompt = row_prompt row, aspect = row_aspect row,
      quality = row_quality row, outputFormat = row_output_format row,
      provider = row_provider row, createdAt = row_created_at row,
      size_width = row_size_width row, size_height = row_size_height row,
      images = row_images row,
      inputImages = Some (case row_input_images row of None \<Rightarrow> [] | Some xs \<Rightarrow> xs)\<rparr>"

text \<open>
  The requests the module sends to the database, the state of the remote store with the
  log of the requests made, and what the network and the remote side decide: whether a
  request is accepted, and the public URL an image upload returns (\<open>None\<close> when it
  throws). The storage bucket itself is not modelled.
\<close>

datatype request =
    SelectSettings string
  | SelectGenerations string
  | SelectFavorites string
  | UpsertGenerations "generation_row list"
  | DeleteFavorites string
  | InsertFavorites "favorite_row list"

record cloud =
  session_user :: "string option"
  generations_table :: "generation_row list"
  favorites_table :: "favorite_row list"
  settings_syncImages :: "bool option"
  requests :: "request list"

record net =
  supabaseUrl :: string
  upload_image :: "string \<Rightarrow> string \<Rightarrow> string option"
  accepts :: "request \<Rightarrow> bool"

text \<open>
  Modelled from the spec: the remote store's \<open>upsertRecords\<close>. The Supabase client and
  the database are not part of the repository; the write is an upsert keyed on \<open>id\<close>
  (\<open>onConflict: "id"\<close>, the primary key of the table in the schema), so a row whose id
  is in the table replaces that row and any other row is added.
\<close>

fun upsert_row :: "generation_row \<Rightarrow> generation_row list \<Rightarrow> generation_row list" where
  "upsert_row r [] = [r]"
| "upsert_row r (x # xs) = (if row_id x = row_id r then r # xs else x # upsert_row r xs)"

definition upsert_rows :: "generation_row list \<Rightarrow> generation_row list \<Rightarrow> generation_row list" where
  "upsert_rows rows table = fold upsert_row rows table"

definition send :: "cloud \<Rightarrow> request \<Rightarrow> cloud" where
  "send c r = c\<lparr>requests := requests c @ [r]\<rparr>"

subsection \<open>Image upload\<close>

definition isBase64DataUrl :: "string \<Rightarrow> bool" where
  "isBase64DataUrl str = startsWith str ''data:image/''"

definition isBlobUrl :: "string \<Rightarrow> bool" where
  "isBlobUrl str = startsWith str ''blob:''"

definition needsUpload :: "string \<Rightarrow> string \<Rightarrow> bool" where
  "needsUpload imageUrl supabase_url =
     (if str_includes imageUrl supabase_url \<and> str_includes imageUrl ''/storage/'' then False
      else if isBase64DataUrl imageUrl then True
      else if isBlobUrl imageUrl then True
      else False)"

definition uploadGenerationImages :: "net \<Rightarrow> string \<Rightarrow> string list \<Rightarrow> string list" where
  "uploadGenerationImages n generationId imgs =
     map (\<lambda>(i, imageUrl).
            if imageUrl = [] \<or> trim imageUrl = [] then imageUrl
            else if needsUpload imageUrl (supabaseUrl n) then
              (case upload_image n (generationId @ ''/'' @ nat_to_string i) imageUrl of
                 Some newUrl \<Rightarrow> newUrl
               | None \<Rightarrow> imageUrl)
            else imageUrl)
         (enumerate 0 imgs)"

subsection \<open>Saving and loading records\<close>

definition saveGenerationsToCloud :: "net \<Rightarrow> cloud \<Rightarrow> generation list \<Rightarrow> cloud \<times> (error + unit)" where
  "saveGenerationsToCloud n c gens =
     (case session_user c of
        None \<Rightarrow> (c, Inl NotAuthenticated)
      | Some uid \<Rightarrow>
          (let rows = map (\<lambda>gen. toDbFormat gen uid) gens;
               c1 = send c (UpsertGenerations rows)
           in if accepts n (UpsertGenerations rows)
              then (c1\<lparr>generations_table := upsert_rows rows (generations_table c1)\<rparr>, Inr ())
              else (c1, Inl RemoteError)))"

definition saveGenerationsWithImages ::
  "net \<Rightarrow> cloud \<Rightarrow> generation list \<Rightarrow> bool \<Rightarrow> cloud \<times> (error + unit)" where
  "saveGenerationsWithImages n c gens uploadImages =
     (case session_user c of
        None \<Rightarrow> (c, Inl NotAuthenticated)
      | Some uid \<Rightarrow>
          (let processedGenerations =
                 map (\<lambda>gen. if uploadImages \<and> list_ex isBase64DataUrl (images gen)
                             then gen\<lparr>images := uploadGenerationImages n (gen_id gen) (images gen)\<rparr>
                             else gen) gens;
               rows = map (\<lambda>gen. toDbFormat gen uid) processedGenerations;
               c1 = send c (UpsertGenerations rows)
           in if accepts n (UpsertGenerations rows)
              then (c1\<lparr>generations_table := upsert_rows rows (generations_table c1)\<rparr>, Inr ())
              else (c1, Inl RemoteError)))"

text \<open>
  The query orders by \<open>created_at\<close>, newest first; rows with equal times come in table
  order here.
\<close>

definition loadGenerationsFromCloud ::
  "(string \<Rightarrow> int) \<Rightarrow> net \<Rightarrow> cloud \<Rightarrow> cloud \<times> (error + generation list)" where
  "loadGenerationsFromCloud getTime n c =
     (case session_user c of
        None \<Rightarrow> (c, Inr [])
      | Some uid \<Rightarrow>
          (let c1 = send c (SelectGenerations uid)
           in if accepts n (SelectGenerations uid)
              then (c1, Inr (map fromDbFormat
                               (sort_key (\<lambda>r. - getTime (row_created_at r))
                                  (filter (\<lambda>r. row_user_id r = uid) (generations_table c)))))
              else (c1, Inl RemoteError)))"

subsection \<open>Saving and loading favorites\<close>

text \<open>
  \<open>fav.split(":")\<close> and \<open>parseInt(imageIndex, 10)\<close>: the first two fields of the key, the
  second read as a decimal integer (leading white space, a sign, then the longest run
  of digits; \<open>NaN\<close>, here \<open>None\<close>, when there is no digit or no second field).
\<close>

fun split_on :: "char \<Rightarrow> string \<Rightarrow> string list" where
  "split_on sep [] = [[]]"
| "split_on sep (c # cs) =
     (if c = sep then [] # split_on sep cs
      else (case split_on sep cs of
              [] \<Rightarrow> [[c]]
            | (f # fs) \<Rightarrow> (c # f) # fs))"

definition is_digit :: "char \<Rightarrow> bool" where
  "is_digit c = (c \<in> set ''0123456789'')"

definition digit_value :: "char \<Rightarrow> nat" where
  "digit_value c = of_char c - 48"

definition digits_value :: "string \<Rightarrow> nat" where
  "digits_value ds = foldl (\<lambda>acc c. 10 * acc + digit_value c) 0 ds"

definition parseInt10 :: "string \<Rightarrow> int option" where
  "parseInt10 s =
     (let t = dropWhile is_space s;
          negative = (t \<noteq> [] \<and> hd t = CHR ''-'');
          u = (if t \<noteq> [] \<and> (hd t = CHR ''-'' \<or> hd t = CHR ''+'') then tl t else t);
          ds = takeWhile is_digit u
      in if ds = [] then None
         else Some (if negative then - int (digits_value ds) else int (digits_value ds)))"

definition int_to_string :: "int \<Rightarrow> string" where
  "int_to_string i = (if 0 \<le> i then nat_to_string (nat i) else CHR ''-'' # nat_to_string (nat (- i)))"

definition favorite_fields :: "string \<Rightarrow> string \<times> int option" where
  "favorite_fields fav =
     (case split_on CHR '':'' fav of
        (generationId # imageIndex # rest) \<Rightarrow> (generationId, parseInt10 imageIndex)
      | [generationId] \<Rightarrow> (generationId, None)
      | [] \<Rightarrow> ([], None))"

text \<open>
  Every favorite of the set gives a row, also one whose key has no numeric index: its
  \<open>image_index\<close> is \<open>NaN\<close>, which JSON sends as \<open>null\<close>. The column is
  \<open>INTEGER NOT NULL\<close> in the schema, so the insert of a batch that has such a row is
  answered with an error, as is an insert the remote side refuses for any other reason
  (\<open>accepts\<close>). The result of the delete is not looked at by the code.
\<close>

definition favorite_rows :: "string \<Rightarrow> string list \<Rightarrow> favorite_row list" where
  "favorite_rows uid favs =
     map (\<lambda>fav. \<lparr>fav_user_id = uid, fav_generation_id = fst (favorite_fields fav),
                  fav_image_index = snd (favorite_fields fav)\<rparr>) favs"

definition insert_ok :: "net \<Rightarrow> favorite_row list \<Rightarrow> bool" where
  "insert_ok n rows =
     (accepts n (InsertFavorites rows) \<and> list_all (\<lambda>r. fav_image_index r \<noteq> None) rows)"

definition saveFavoritesToCloud :: "net \<Rightarrow> cloud \<Rightarrow> string list \<Rightarrow> cloud \<times> (error + unit)" where
  "saveFavoritesToCloud n c favs =
     (case session_user c of
        None \<Rightarrow> (c, Inl NotAuthenticated)
      | Some uid \<Rightarrow>
          (let c1 = send c (DeleteFavorites uid);
               c2 = (if accepts n (DeleteFavorites uid)
                     then c1\<lparr>favorites_table := filter (\<lambda>r. fav_user_id r \<noteq> uid) (favorites_table c1)\<rparr>
                     else c1);
               rows = favorite_rows uid (Array_from favs)
           in if length rows > 0 then
                (let c3 = send c2 (InsertFavorites rows)
                 in if insert_ok n rows
                    then (c3\<lparr>favorites_table := favorites_table c3 @ rows\<rparr>, Inr ())
                    else (c3, Inl RemoteError))
              else (c2, Inr ())))"

text \<open>
  The template literal renders the index of a row; a \<open>null\<close> index, which the table
  cannot hold, would read \<open>null\<close>.
\<close>

definition index_to_string :: "int option \<Rightarrow> string" where
  "index_to_string i = (case i of None \<Rightarrow> ''null'' | Some k \<Rightarrow> int_to_string k)"

definition loadFavoritesFromCloud :: "net \<Rightarrow> cloud \<Rightarrow> cloud \<times> (error + string list)" where
  "loadFavoritesFromCloud n c =
     (case session_user c of
        None \<Rightarrow> (c, Inr (new_Set []))
      | Some uid \<Rightarrow>
          (let c1 = send c (SelectFavorites uid)
           in if accepts n (SelectFavorites uid)
              then (c1, Inr (new_Set (map (\<lambda>r. fav_generation_id r @ '':'' @ index_to_string (fav_image_index r))
                                         (filter (\<lambda>r. fav_user_id r = uid) (favorites_table c)))))
              else (c1, Inl RemoteError)))"

definition loadSettingsFromCloud :: "net \<Rightarrow> cloud \<Rightarrow> cloud \<times> (error + bool option)" where
  "loadSettingsFromCloud n c =
     (case session_user c of
        None \<Rightarrow> (c, Inr None)
      | Some uid \<Rightarrow>
          (let c1 = send c (SelectSettings uid)
           in if accepts n (SelectSettings uid) then (c1, Inr (settings_syncImages c))
              else (c1, Inl RemoteError)))"

section \<open>The remote store of the VPS module (cloud-storage over vps-api/client.ts)\<close>

text \<open>
  The repository holds a second module for the import path of the hook, which talks to
  the VPS API instead of Supabase. Its functions take the name of their Supabase
  counterpart; here they carry the suffix \<open>_vps\<close>. The body of a bulk request is the
  array \<open>toApiFormat\<close>, respectively the favorites mapping, builds. The server is not part
  of the repository: of the remote side only the log of the bulk requests is kept,
  together with what the API answers: whether the response of a request is ok
  (\<open>request\<close> throws otherwise), the path an upload returns (\<open>None\<close> when it throws) and
  the data URL read from a \<open>blob:\<close> handle (\<open>None\<close> when that throws).
\<close>

record api_generation =
  api_id :: string
  api_prompt :: string
  api_aspect :: string
  api_quality :: string
  api_output_format :: "string option"
  api_provider :: string
  api_size_width :: nat
  api_size_height :: nat
  api_images :: "string list"
  api_input_images :: "input_image list option"
  api_created_at :: string

record api_favorite =
  generation_id :: string
  image_index :: "int option"

datatype vps_request =
    BulkUpsertGenerations "api_generation list"
  | BulkUpsertFavorites "api_favorite list"

record vps =
  VPS_API_URL :: string
  blobUrlToBase64 :: "string \<Rightarrow> string option"
  uploadBase64 :: "string \<Rightarrow> string option"
  response_ok :: "vps_request \<Rightarrow> bool"

definition toApiFormat :: "generation \<Rightarrow> api_generation" where
  "toApiFormat generation =
     \<lparr>api_id = gen_id generation, api_prompt = prompt generation, api_aspect = aspect generation,
      api_quality = quality generation, api_output_format = outputFormat generation,
      api_provider = provider generation, api_size_width = size_width generation,
      api_size_height = size_height generation, api_images = images generation,
      api_input_images = inputImages generation, api_created_at = createdAt generation\<rparr>"

definition getStorageUrl :: "vps \<Rightarrow> string \<Rightarrow> string" where
  "getStorageUrl v path =
     (let cleanPath = (if startsWith path ''/'' then path else ''/'' @ path)
      in replace_first (VPS_API_URL v) ''/api'' [] @ cleanPath)"

definition needsUpload_vps :: "vps \<Rightarrow> string \<Rightarrow> bool" where
  "needsUpload_vps v imageUrl =
     (if str_includes imageUrl (replace_first (VPS_API_URL v) ''/api'' []) \<and>
         str_includes imageUrl ''/storage/'' then False
      else if isBase64DataUrl imageUrl then True
      else if isBlobUrl imageUrl then True
      else False)"

definition uploadImage_vps :: "vps \<Rightarrow> string \<Rightarrow> string option" where
  "uploadImage_vps v imageData =
     (case (if isBase64DataUrl imageData then Some imageData
            else if isBlobUrl imageData then blobUrlToBase64 v imageData
            else None) of
        None \<Rightarrow> None
      | Some dataUrl \<Rightarrow>
          (case uploadBase64 v dataUrl of
             None \<Rightarrow> None
           | Some path \<Rightarrow> Some (getStorageUrl v path)))"

definition uploadGenerationImages_vps :: "vps \<Rightarrow> string \<Rightarrow> string list \<Rightarrow> string list" where
  "uploadGenerationImages_vps v generationId imgs =
     map (\<lambda>imageUrl.
            if imageUrl = [] \<or> trim imageUrl = [] then imageUrl
            else if needsUpload_vps v imageUrl then
              (case uploadImage_vps v imageUrl of
                 Some newUrl \<Rightarrow> newUrl
               | None \<Rightarrow> imageUrl)
            else imageUrl)
         imgs"

definition saveGenerationsToCloud_vps ::
  "vps \<Rightarrow> vps_request list \<Rightarrow> generation list \<Rightarrow> vps_request list \<times> (error + unit)" where
  "saveGenerationsToCloud_vps v sent gens =
     (let apiGenerations = map toApiFormat gens
      in if response_ok v (BulkUpsertGenerations apiGenerations)
         then (sent @ [BulkUpsertGenerations apiGenerations], Inr ())
         else (sent @ [BulkUpsertGenerations apiGenerations], Inl RemoteError))"

definition saveGenerationsWithImages_vps ::
  "vps \<Rightarrow> vps_request list \<Rightarrow> generation list \<Rightarrow> bool \<Rightarrow> vps_request list \<times> (error + unit)" where
  "saveGenerationsWithImages_vps v sent gens uploadImagesFlag =
     (let processedGenerations =
            map (\<lambda>gen. if uploadImagesFlag \<and>
                           list_ex (\<lambda>img. isBase64DataUrl img \<or> isBlobUrl img) (images gen)
                        then gen\<lparr>images := uploadGenerationImages_vps v (gen_id gen) (images gen)\<rparr>
                        else gen) gens
      in saveGenerationsToCloud_vps v sent processedGenerations)"

definition saveFavoritesToCloud_vps ::
  "vps \<Rightarrow> vps_request list \<Rightarrow> string list \<Rightarrow> vps_request list \<times> (error + unit)" where
  "saveFavoritesToCloud_vps v sent favs =
     (let favArray = map (\<lambda>fav. \<lparr>generation_id = fst (favorite_fields fav),
                                  image_index = snd (favorite_fields fav)\<rparr>) (Array_from favs)
      in if length favArray > 0 then
           (if response_ok v (BulkUpsertFavorites favArray)
            then (sent @ [BulkUpsertFavorites favArray], Inr ())
            else (sent @ [BulkUpsertFavorites favArray], Inl RemoteError))
         else (sent, Inr ()))"

section \<open>The sync hook (use-cloud-sync.ts)\<close>

text \<open>
  The refs and the state of \<open>useCloudSync\<close>. A last-synced ref holds \<open>""\<close> or
  \<open>JSON.stringify\<close> of a sorted array of ids; \<open>JSON.stringify\<close> is injective on arrays of
  strings and \<open>JSON.parse\<close> inverts it, so the ref is modelled as \<open>None\<close> for \<open>""\<close> and as the
  array itself otherwise. \<open>Array.prototype.sort\<close> without comparator orders strings by
  code unit.
\<close>

record sync =
  prevUserIdRef :: "string option"
  syncInProgressRef :: bool
  initialSyncDoneRef :: bool
  lastSyncedGenerationsRef :: "string list option"
  lastSyncedFavoritesRef :: "string list option"
  syncImages :: bool

definition initial_sync :: sync where
  "initial_sync = \<lparr>prevUserIdRef = None, syncInProgressRef = False, initialSyncDoneRef = False,
     lastSyncedGenerationsRef = None, lastSyncedFavoritesRef = None, syncImages = True\<rparr>"

definition parse_or_empty :: "string list option \<Rightarrow> string list" where
  "parse_or_empty ref = (case ref of None \<Rightarrow> [] | Some ids \<Rightarrow> ids)"

subsection \<open>The sign-in merge: syncWithCloud\<close>

text \<open>
  The merge is written with the functions of the Supabase module.
  \<open>gens\<close> and \<open>favs\<close> are the props the effect closed over, \<open>p\<close> is the state of the page
  when the updaters run. A rejected call ends the merge in the \<open>catch\<close>; what was done
  before stays done, and \<open>finally\<close> clears the in-progress flag.
\<close>

definition syncWithCloud ::
  "(string \<Rightarrow> int) \<Rightarrow> net \<Rightarrow> cloud \<Rightarrow> sync \<Rightarrow> generation list \<Rightarrow> string list \<Rightarrow> page
     \<Rightarrow> cloud \<times> sync \<times> page" where
  "syncWithCloud getTime n c s gens favs p =
     (case loadSettingsFromCloud n c of
        (c1, Inl err) \<Rightarrow> (c1, s\<lparr>syncInProgressRef := False\<rparr>, p)
      | (c1, Inr cloudSettings) \<Rightarrow>
          (let s1 = (case cloudSettings of None \<Rightarrow> s | Some v \<Rightarrow> s\<lparr>syncImages := v\<rparr>)
           in case loadGenerationsFromCloud getTime n c1 of (c2, loadedGenerations) \<Rightarrow>
              (case loadFavoritesFromCloud n c2 of (c3, loadedFavorites) \<Rightarrow>
                 (case (loadedGenerations, loadedFavorites) of
                    (Inr cloudGenerations, Inr cloudFavorites) \<Rightarrow>
                      (let cloudGenIds = new_Set (map gen_id cloudGenerations);
                           localOnlyGenerations = filter (\<lambda>g. \<not> Set_has cloudGenIds (gen_id g)) gens;
                           localOnlyFavorites =
                             new_Set (filter (\<lambda>f. \<not> Set_has cloudFavorites f) (Array_from favs))
                       in case (if length localOnlyGenerations > 0
                                then saveGenerationsWithImages n c3 localOnlyGenerations (syncImages s)
                                else (c3, Inr ())) of
                            (c4, Inl err) \<Rightarrow> (c4, s1\<lparr>syncInProgressRef := False\<rparr>, p)
                          | (c4, Inr u) \<Rightarrow>
                              (case (if length localOnlyFavorites > 0
                                     then saveFavoritesToCloud n c4 (new_Set (cloudFavorites @ favs))
                                     else (c4, Inr ())) of
                                 (c5, Inl err) \<Rightarrow> (c5, s1\<lparr>syncInProgressRef := False\<rparr>, p)
                               | (c5, Inr u) \<Rightarrow>
                                   (let localIds = new_Set (map gen_id gens);
                                        cloudOnlyGenerations =
                                          filter (\<lambda>g. \<not> Set_has localIds (gen_id g)) cloudGenerations;
                                        p1 = (if length cloudOnlyGenerations > 0
                                              then p\<lparr>generations :=
                                                     onGenerationsLoaded getTime cloudOnlyGenerations (generations p)\<rparr>
                                              else p);
                                        p2 = (if length cloudFavorites > 0
                                              then p1\<lparr>favorites := onFavoritesLoaded cloudFavorites (favorites p1)\<rparr>
                                              else p1);
                                        allGenerationIds =
                                          new_Set (map gen_id cloudGenerations @ map gen_id gens);
                                        allFavoriteIds = new_Set (cloudFavorites @ favs)
                                    in (c5,
                                        s1\<lparr>lastSyncedGenerationsRef := Some (sort allGenerationIds),
                                            lastSyncedFavoritesRef := Some (sort allFavoriteIds),
                                            initialSyncDoneRef := True,
                                            syncInProgressRef := False\<rparr>,
                                        p2))))
                  | _ \<Rightarrow> (c3, s1\<lparr>syncInProgressRef := False\<rparr>, p)))))"

subsection \<open>The debounced syncs\<close>

text \<open>
  Each effect returns at once when there is no user, when the initial sync has not been
  done (for records also while a sync is in progress), or when the key of the current
  ids equals the last-synced ref; otherwise it arms a timer, and the firing of the
  timer is \<open>syncGenerations\<close>, respectively \<open>syncFavorites\<close>.
\<close>

definition currentGenerationsKey :: "generation list \<Rightarrow> string list option" where
  "currentGenerationsKey gens = Some (sort (map gen_id gens))"

definition currentFavoritesKey :: "string list \<Rightarrow> string list option" where
  "currentFavoritesKey favs = Some (sort (Array_from favs))"

definition generations_sync_armed :: "string option \<Rightarrow> sync \<Rightarrow> generation list \<Rightarrow> bool" where
  "generations_sync_armed user s gens =
     (\<not> (user = None \<or> syncInProgressRef s \<or> \<not> initialSyncDoneRef s) \<and>
      currentGenerationsKey gens \<noteq> lastSyncedGenerationsRef s)"

definition favorites_sync_armed :: "string option \<Rightarrow> sync \<Rightarrow> string list \<Rightarrow> bool" where
  "favorites_sync_armed user s favs =
     (\<not> (user = None \<or> \<not> initialSyncDoneRef s) \<and>
      currentFavoritesKey favs \<noteq> lastSyncedFavoritesRef s)"

definition newGenerations :: "sync \<Rightarrow> generation list \<Rightarrow> generation list" where
  "newGenerations s gens =
     (let lastSyncedIds = new_Set (parse_or_empty (lastSyncedGenerationsRef s))
      in filter (\<lambda>g. \<not> Set_has lastSyncedIds (gen_id g)) gens)"

text \<open>
  The functions the hook imports are parameters of the firings: \<open>save\<close> is
  \<open>saveGenerationsWithImages\<close>, respectively \<open>saveFavoritesToCloud\<close>, of the module the
  import resolves to, applied to what that module's remote side decides, and \<open>c\<close> is the
  state of that remote side.
\<close>

definition syncGenerations ::
  "('c \<Rightarrow> generation list \<Rightarrow> bool \<Rightarrow> 'c \<times> (error + unit)) \<Rightarrow> 'c \<Rightarrow> sync \<Rightarrow> generation list
     \<Rightarrow> 'c \<times> sync" where
  "syncGenerations save c s gens =
     (case (if length (newGenerations s gens) > 0
            then save c (newGenerations s gens) (syncImages s)
            else (c, Inr ())) of
        (c1, Inl err) \<Rightarrow> (c1, s\<lparr>syncInProgressRef := False\<rparr>)
      | (c1, Inr u) \<Rightarrow>
          (c1, s\<lparr>lastSyncedGenerationsRef := currentGenerationsKey gens, syncInProgressRef := False\<rparr>))"

definition syncFavorites ::
  "('c \<Rightarrow> string list \<Rightarrow> 'c \<times> (error + unit)) \<Rightarrow> 'c \<Rightarrow> sync \<Rightarrow> string list \<Rightarrow> 'c \<times> sync" where
  "syncFavorites save c s favs =
     (case save c favs of
        (c1, Inl err) \<Rightarrow> (c1, s)
      | (c1, Inr u) \<Rightarrow> (c1, s\<lparr>lastSyncedFavoritesRef := currentFavoritesKey favs\<rparr>))"

text \<open>
  The delta of the favorites in the words of the specification: the current favorites
  that are not in the last-synced snapshot.
\<close>

definition favorites_delta :: "sync \<Rightarrow> string list \<Rightarrow> string list" where
  "favorites_delta s favs =
     filter (\<lambda>f. f \<notin> set (parse_or_empty (lastSyncedFavoritesRef s))) favs"

section \<open>Uploaded records\<close>

text \<open>
  \<open>processed n uploadImages gen\<close> is the element \<open>saveGenerationsWithImages\<close> pushes on
  \<open>processedGenerations\<close> for \<open>gen\<close>. \<open>net0\<close> is a remote side that accepts every request,
  \<open>cloud0\<close> an empty remote store with a signed-in user.
\<close>

definition processed :: "net \<Rightarrow> bool \<Rightarrow> generation \<Rightarrow> generation" where
  "processed n uploadImages gen =
     (if uploadImages \<and> list_ex isBase64DataUrl (images gen)
      then gen\<lparr>images := uploadGenerationImages n (gen_id gen) (images gen)\<rparr> else gen)"

definition net0 :: net where
  "net0 = \<lparr>supabaseUrl = ''https://proj.supabase.co'',
            upload_image = (\<lambda>path d. Some (''https://proj.supabase.co/storage/v1/object/public/generations/u1/'' @ path @ ''.png'')),
            accepts = (\<lambda>r. True)\<rparr>"

definition cloud0 :: cloud where
  "cloud0 = \<lparr>session_user = Some ''u1'', generations_table = [], favorites_table = [],
              settings_syncImages = None, requests = []\<rparr>"

section \<open>Rows of a debounced upload\<close>

text \<open>
  \<open>delta_rows\<close>: the rows \<open>syncGenerations\<close> hands to the Supabase upsert, built from
  \<open>newGenerations\<close>; \<open>delta_rows_vps\<close>: the array it hands to the bulk upsert of the VPS
  module; \<open>favorites_vps\<close>: the array the VPS module builds from a favorites set.
  \<open>s_synced\<close> is a hook state after the initial sync, with one record id and one
  favorite in the snapshots; \<open>net_down\<close> rejects every request; \<open>vps0\<close> is a VPS side
  that answers every request, \<open>vps_down\<close> one that answers none.
\<close>

definition delta_rows :: "net \<Rightarrow> sync \<Rightarrow> string \<Rightarrow> generation list \<Rightarrow> generation_row list" where
  "delta_rows n s uid gens =
     map (\<lambda>gen. toDbFormat (processed n (syncImages s) gen) uid) (newGenerations s gens)"

definition processed_vps :: "vps \<Rightarrow> bool \<Rightarrow> generation \<Rightarrow> generation" where
  "processed_vps v uploadImagesFlag gen =
     (if uploadImagesFlag \<and> list_ex (\<lambda>img. isBase64DataUrl img \<or> isBlobUrl img) (images gen)
      then gen\<lparr>images := uploadGenerationImages_vps v (gen_id gen) (images gen)\<rparr> else gen)"

definition delta_rows_vps :: "vps \<Rightarrow> sync \<Rightarrow> generation list \<Rightarrow> api_generation list" where
  "delta_rows_vps v s gens =
     map (\<lambda>gen. toApiFormat (processed_vps v (syncImages s) gen)) (newGenerations s gens)"

definition favorites_vps :: "string list \<Rightarrow> api_favorite list" where
  "favorites_vps favs =
     map (\<lambda>fav. \<lparr>generation_id = fst (favorite_fields fav), image_index = snd (favorite_fields fav)\<rparr>) favs"

definition s_synced :: sync where
  "s_synced = initial_sync\<lparr>initialSyncDoneRef := True, lastSyncedGenerationsRef := Some [''g1''],
                lastSyncedFavoritesRef := Some [''a:0'']\<rparr>"

definition net_down :: net where
  "net_down = net0\<lparr>accepts := (\<lambda>r. False)\<rparr>"

definition vps0 :: vps where
  "vps0 = \<lparr>VPS_API_URL = ''http://vps.example/api'', blobUrlToBase64 = (\<lambda>u. Some (''data:image/png;base64,'' @ u)),
            uploadBase64 = (\<lambda>d. Some ''/storage/1.png''), response_ok = (\<lambda>r. True)\<rparr>"

definition vps_down :: vps where
  "vps_down = vps0\<lparr>response_ok := (\<lambda>r. False)\<rparr>"

section \<open>A remote store with a conflicting record\<close>

text \<open>
  \<open>cloud_ab\<close> holds a remote copy of \<open>g1\<close> with another prompt and a record the device does
  not have; \<open>p_local\<close> is a page whose completed list is \<open>g1\<close>; \<open>getTime0\<close> stands for
  \<open>Date.parse\<close> in the witness.
\<close>

definition cloud_ab :: cloud where
  "cloud_ab = cloud0\<lparr>generations_table :=
       [toDbFormat (g1\<lparr>prompt := ''a remote cat''\<rparr>) ''u1'', toDbFormat g_fresh ''u1'']\<rparr>"

definition p_local :: page where
  "p_local = initial_page\<lparr>generations := [g1]\<rparr>"

definition getTime0 :: "string \<Rightarrow> int" where
  "getTime0 stamp = int (length stamp)"

section \<open>Theorems\<close>

declare nat_to_string.simps [simp del]

subsection \<open>Sets\<close>

lemma set_fold_Set_add: "set (fold (\<lambda>x s. Set_add s x) xs acc) = set acc \<union> set xs"
  by (induction xs arbitrary: acc) (auto simp: Set_add_def Set_has_def)

lemma set_new_Set: "set (new_Set xs) = set xs"
  by (simp add: new_Set_def set_fold_Set_add)

lemma fold_Set_add_distinct:
  "distinct xs \<Longrightarrow> set acc \<inter> set xs = {} \<Longrightarrow> fold (\<lambda>x s. Set_add s x) xs acc = acc @ xs"
  by (induction xs arbitrary: acc) (auto simp: Set_add_def Set_has_def)

lemma new_Set_distinct: "distinct xs \<Longrightarrow> new_Set xs = xs"
  by (simp add: new_Set_def fold_Set_add_distinct)

subsection \<open>Favorites\<close>

lemma set_toggle:
  "set (handleToggleFavorite g i s) =
     (if favoriteId g i \<in> set s then set s - {favoriteId g i} else insert (favoriteId g i) (set s))"
  by (auto simp: handleToggleFavorite_def Let_def Set_has_def Set_delete_def Set_add_def set_new_Set)

text \<open>
  C10. For every favorites set \<open>s\<close> and pair (generationId, imageIndex), the toggle adds
  the composite key \<open>generationId:imageIndex\<close> when it is absent, removes it when it is
  present, leaves the membership of every other element unchanged, and toggling twice
  with the same pair gives back a set equal to \<open>s\<close>.
\<close>

theorem toggleFavorite_spec:
  "(favoriteId g i \<notin> set s \<longrightarrow> set (handleToggleFavorite g i s) = insert (favoriteId g i) (set s)) \<and>
   (favoriteId g i \<in> set s \<longrightarrow> set (handleToggleFavorite g i s) = set s - {favoriteId g i}) \<and>
   (\<forall>x. x \<noteq> favoriteId g i \<longrightarrow> (x \<in> set (handleToggleFavorite g i s) \<longleftrightarrow> x \<in> set s)) \<and>
   set (handleToggleFavorite g i (handleToggleFavorite g i s)) = set s"
  by (auto simp: set_toggle)

theorem toggleFavorite_witness:
  "favoriteId ''gen-1'' 2 = ''gen-1:2'' \<and>
   set (handleToggleFavorite ''gen-1'' 2 [''a:0'']) = {''a:0'', ''gen-1:2''} \<and>
   set (handleToggleFavorite ''gen-1'' 2 [''a:0'', ''gen-1:2'']) = {''a:0''} \<and>
   set (handleToggleFavorite ''gen-1'' 2 (handleToggleFavorite ''gen-1'' 2 [''a:0''])) = {''a:0''}"
proof -
  have fid: "favoriteId ''gen-1'' 2 = ''gen-1:2''"
    by (simp add: favoriteId_def nat_to_string.simps digit_char_def)
  show ?thesis
    using toggleFavorite_spec [of "''gen-1''" 2 "[''a:0'']"]
          toggleFavorite_spec [of "''gen-1''" 2 "[''a:0'', ''gen-1:2'']"]
    by (auto simp: fid)
qed

text \<open>
  C9. For every set of favorite keys, \<open>persistFavorites\<close> followed by \<open>restoreFavorites\<close>
  returns a set with exactly the same members (and, a JavaScript set having no
  repetition, the same elements in the same order), provided the store exists and the
  favorites document can be written and read.
\<close>

theorem favorites_roundtrip:
  assumes "has_window w" and "writable e FAVORITES_KEY" and "readable e FAVORITES_KEY"
  shows "\<exists>w1 s. persistFavorites e w favs = (w1, Inr ()) \<and>
                 restoreFavorites e w1 = (w1, Inr s) \<and>
                 set s = set favs \<and> (distinct favs \<longrightarrow> s = favs)"
  using assms
  by (simp add: persistFavorites_def restoreFavorites_def setItem_def getItem_def Array_from_def
        update_conv' set_new_Set new_Set_distinct)

theorem favorites_roundtrip_witness:
  "\<exists>w1. persistFavorites e0 w0 (handleToggleFavorite ''gen-1'' 2 []) = (w1, Inr ()) \<and>
         (\<exists>s. restoreFavorites e0 w1 = (w1, Inr s) \<and> ''gen-1:2'' \<in> set s)"
proof -
  have t: "handleToggleFavorite ''gen-1'' 2 [] = [''gen-1:2'']"
    by (simp add: handleToggleFavorite_def new_Set_def Set_has_def Set_add_def
          favoriteId_def nat_to_string.simps digit_char_def)
  have h: "has_window w0" "writable e0 FAVORITES_KEY" "readable e0 FAVORITES_KEY"
    by (simp_all add: w0_def e0_def)
  from favorites_roundtrip [OF h, of "handleToggleFavorite ''gen-1'' 2 []"]
  show ?thesis unfolding t by auto
qed

subsection \<open>Garbage collection\<close>

lemma set_Set_add [simp]: "set (Set_add s x) = insert x (set s)"
  by (auto simp: Set_add_def Set_has_def)

lemma set_fold_outputs:
  "set (fold (\<lambda>(index, img) acc.
                    if img = [] then acc
                    else Set_add acc (if isRef img then getRefKey img
                                      else getImageKey (gen_id gen) index Output None)) ps acc)
   = set acc \<union> set (map (\<lambda>(index, img). output_key gen index img) (filter (\<lambda>(index, img). img \<noteq> []) ps))"
  by (induction ps arbitrary: acc) (auto simp: output_key_def)

lemma set_fold_inputs:
  "set (fold (\<lambda>img acc.
                 if url img = [] then acc
                 else Set_add acc (if isRef (url img) then getRefKey (url img)
                                   else getImageKey (gen_id gen) 0 Input (Some (img_id img)))) xs acc)
   = set acc \<union> set (map (input_key gen) (filter (\<lambda>img. url img \<noteq> []) xs))"
  by (induction xs arbitrary: acc) (auto simp: input_key_def)

lemma set_collectKeys: "set (collectKeys gen acc) = set acc \<union> set (record_keys gen)"
  unfolding collectKeys_def Let_def record_keys_def set_fold_inputs set_fold_outputs
  by auto

lemma set_fold_collectKeys:
  "set (fold collectKeys gs acc) = set acc \<union> (\<Union>gen \<in> set gs. set (record_keys gen))"
  by (induction gs arbitrary: acc) (auto simp: set_collectKeys)

lemma set_referencedKeys:
  "set (referencedKeys sg sp) = (\<Union>gen \<in> set (sg @ sp). set (record_keys gen))"
  by (auto simp: referencedKeys_def set_fold_collectKeys)

lemma map_of_fold_removeItem:
  "map_of (forage (fold (\<lambda>key w'. removeItem w' key) ks w)) k =
     (if k \<in> set ks then None else map_of (forage w) k)"
  by (induction ks arbitrary: w) (auto simp: removeItem_def delete_conv')

lemma keys_dom: "set (keys w) = dom (map_of (forage w))"
  by (simp add: keys_def dom_map_of_conv_image_fst)

text \<open>
  C1. With the liveness snapshot \<open>sg\<close> (completed) and \<open>sp\<close> (pending), given as arguments
  or read from the store, \<open>cleanOrphanedImages\<close> removes a stored key if and only if the
  key starts with \<open>img:\<close> and is not among the keys of the non-empty output and input
  fields of the records of the snapshot; every key that stays keeps its value, and in
  particular no key a record of the snapshot refers to is removed or changed.
\<close>

theorem cleanOrphanedImages_removes:
  assumes "has_window w"
    and "snapshot_of e w GENERATIONS_KEY given_gens = Inr sg"
    and "snapshot_of e w PENDING_KEY given_pend = Inr sp"
  shows "\<exists>w'. cleanOrphanedImages e w given_gens given_pend = (w', Inr ()) \<and>
     (\<forall>k. (k \<in> set (keys w) \<and> k \<notin> set (keys w')) \<longleftrightarrow>
           (k \<in> set (keys w) \<and> startsWith k ''img:'' \<and> k \<notin> (\<Union>gen \<in> set (sg @ sp). set (record_keys gen)))) \<and>
     (\<forall>k. k \<in> set (keys w') \<longrightarrow> map_of (forage w') k = map_of (forage w) k) \<and>
     (\<forall>gen \<in> set (sg @ sp). \<forall>k \<in> set (record_keys gen).
         map_of (forage w') k = map_of (forage w) k)"
proof -
  define rem where
    "rem = filter (\<lambda>key. startsWith key ''img:'' \<and> \<not> Set_has (referencedKeys sg sp) key) (keys w)"
  define w' where "w' = fold (\<lambda>key w'. removeItem w' key) rem w"
  have run: "cleanOrphanedImages e w given_gens given_pend = (w', Inr ())"
    using assms by (simp add: cleanOrphanedImages_def Let_def w'_def rem_def)
  have look: "map_of (forage w') k = (if k \<in> set rem then None else map_of (forage w) k)" for k
    unfolding w'_def by (rule map_of_fold_removeItem)
  have keys': "k \<in> set (keys w') \<longleftrightarrow> k \<in> set (keys w) \<and> k \<notin> set rem" for k
    unfolding keys_dom domIff look by auto
  have rem: "k \<in> set rem \<longleftrightarrow>
      k \<in> set (keys w) \<and> startsWith k ''img:'' \<and> k \<notin> (\<Union>gen \<in> set (sg @ sp). set (record_keys gen))" for k
    unfolding set_referencedKeys [symmetric] rem_def by (auto simp: Set_has_def)
  have a: "\<forall>k. (k \<in> set (keys w) \<and> k \<notin> set (keys w')) \<longleftrightarrow>
           (k \<in> set (keys w) \<and> startsWith k ''img:'' \<and> k \<notin> (\<Union>gen \<in> set (sg @ sp). set (record_keys gen)))"
    using keys' rem by blast
  have b: "\<forall>k. k \<in> set (keys w') \<longrightarrow> map_of (forage w') k = map_of (forage w) k"
    using keys' look by simp
  have c: "\<forall>gen \<in> set (sg @ sp). \<forall>k \<in> set (record_keys gen). map_of (forage w') k = map_of (forage w) k"
  proof (intro ballI)
    fix gen k assume "gen \<in> set (sg @ sp)" "k \<in> set (record_keys gen)"
    then have "k \<notin> set rem" using rem by blast
    then show "map_of (forage w') k = map_of (forage w) k" using look by simp
  qed
  show ?thesis using run a b c by blast
qed

lemma g1_keys: "record_keys g1 = [''img:g1:0'', ''img:g1:input:att-1'']"
  by (simp add: record_keys_def g1_def output_key_def input_key_def isRef_def startsWith_def
        getImageKey_def getRefKey_def inputs_or_empty_def nat_to_string.simps digit_char_def)

theorem cleanOrphanedImages_witness:
  "\<exists>w'. cleanOrphanedImages e0 w_gc (Some [g1]) (Some []) = (w', Inr ()) \<and>
     ''img:old:0'' \<notin> set (keys w') \<and>
     map_of (forage w') ''img:g1:0'' = Some (Blob ''x'') \<and>
     map_of (forage w') ''img:g1:input:att-1'' = Some (Blob ''z'')"
proof -
  have h: "has_window w_gc" "snapshot_of e0 w_gc GENERATIONS_KEY (Some [g1]) = Inr [g1]"
     "snapshot_of e0 w_gc PENDING_KEY (Some []) = Inr []"
    by (simp_all add: w_gc_def snapshot_of_def)
  from cleanOrphanedImages_removes [OF h]
  obtain w' where run: "cleanOrphanedImages e0 w_gc (Some [g1]) (Some []) = (w', Inr ())"
    and a: "\<And>k. (k \<in> set (keys w_gc) \<and> k \<notin> set (keys w')) \<longleftrightarrow>
           (k \<in> set (keys w_gc) \<and> startsWith k ''img:'' \<and> k \<notin> (\<Union>gen \<in> set ([g1] @ []). set (record_keys gen)))"
    and c: "\<And>gen k. gen \<in> set ([g1] @ []) \<Longrightarrow> k \<in> set (record_keys gen) \<Longrightarrow>
         map_of (forage w') k = map_of (forage w_gc) k"
    by blast
  have "''img:old:0'' \<notin> set (keys w')"
    using a [of "''img:old:0''"] by (simp add: g1_keys keys_def w_gc_def startsWith_def)
  moreover have "map_of (forage w') ''img:g1:0'' = Some (Blob ''x'')"
    using c [of g1 "''img:g1:0''"] by (simp add: g1_keys w_gc_def)
  moreover have "map_of (forage w') ''img:g1:input:att-1'' = Some (Blob ''z'')"
    using c [of g1 "''img:g1:input:att-1''"] by (simp add: g1_keys w_gc_def)
  ultimately show ?thesis using run by blast
qed

subsection \<open>Hydration\<close>

lemma map_async_length: "map_async f i xs w = (w', ys) \<Longrightarrow> length ys = length xs"
  by (induction xs arbitrary: i w w' ys) (auto split: prod.splits)

lemma map_async_rel:
  assumes step: "\<And>i x w. R w (fst (f i x w))"
    and refl: "\<And>w. R w w"
    and trans: "\<And>a b c. R a b \<Longrightarrow> R b c \<Longrightarrow> R a c"
  shows "map_async f i xs w = (w', ys) \<Longrightarrow> R w w'"
proof (induction xs arbitrary: i w w' ys)
  case Nil
  then show ?case by (simp add: refl)
next
  case (Cons x xs)
  obtain w1 y where f: "f i x w = (w1, y)" by (cases "f i x w")
  obtain w2 zs where r: "map_async f (Suc i) xs w1 = (w2, zs)" by (cases "map_async f (Suc i) xs w1")
  from Cons.prems f r have "w' = w2" by simp
  moreover have "R w w1" using step [of w i x] f by simp
  moreover have "R w1 w2" using Cons.IH [OF r] .
  ultimately show ?case using trans by blast
qed

lemma map_async_nth:
  assumes step: "\<And>i x w. R w (fst (f i x w))"
    and refl: "\<And>w. R w w"
    and trans: "\<And>a b c. R a b \<Longrightarrow> R b c \<Longrightarrow> R a c"
  shows "map_async f i xs w = (w', ys) \<Longrightarrow> j < length xs \<Longrightarrow>
    \<exists>wa. R w wa \<and> R (fst (f (i + j) (xs ! j) wa)) w' \<and> ys ! j = snd (f (i + j) (xs ! j) wa)"
proof (induction xs arbitrary: i w w' ys j)
  case Nil
  then show ?case by simp
next
  case (Cons x xs)
  obtain w1 y where f: "f i x w = (w1, y)" by (cases "f i x w")
  obtain w2 zs where r: "map_async f (Suc i) xs w1 = (w2, zs)" by (cases "map_async f (Suc i) xs w1")
  from Cons.prems(1) f r have eq: "w' = w2" "ys = y # zs" by simp_all
  have w_w1: "R w w1" using step [of w i x] f by simp
  show ?case
  proof (cases j)
    case 0
    have "R w1 w2" using map_async_rel [of R f, OF step refl trans r] .
    then show ?thesis using 0 f eq refl by (intro exI [of _ w]) simp
  next
    case (Suc k)
    with Cons.prems(2) have "k < length xs" by simp
    from Cons.IH [OF r this] obtain wa where
      "R w1 wa" "R (fst (f (Suc i + k) (xs ! k) wa)) w2" "zs ! k = snd (f (Suc i + k) (xs ! k) wa)"
      by blast
    then show ?thesis using Suc eq w_w1 trans by (intro exI [of _ wa]) auto
  qed
qed

lemma store_le_refl: "store_le w w" by (simp add: store_le_def)

lemma store_le_trans: "store_le a b \<Longrightarrow> store_le b c \<Longrightarrow> store_le a c" by (auto simp: store_le_def)

lemma map_async_le:
  assumes "\<And>i x w. store_le w (fst (f i x w))" and "map_async f i xs w = (w', ys)"
  shows "store_le w w'"
proof (rule map_async_rel [where R = store_le and f = f])
  show "map_async f i xs w = (w', ys)" by fact
qed (auto intro: assms(1) store_le_refl store_le_trans)

lemma store_le_setItem: "setItem e w k v = Inr w' \<Longrightarrow> store_le w w'"
  by (auto simp: setItem_def store_le_def keys_dom update_conv' split: if_splits)

lemma map_async_same_world:
  "(\<And>i x w. x \<in> set xs \<Longrightarrow> fst (f i x w) = w) \<Longrightarrow> fst (map_async f i xs w) = w"
proof (induction xs arbitrary: i w)
  case Nil
  then show ?case by simp
next
  case (Cons x xs)
  have "fst (f i x w) = w" using Cons.prems by simp
  moreover have "fst (map_async f (Suc i) xs w) = w" using Cons by simp
  ultimately show ?case by (auto split: prod.splits)
qed

lemma map_async_rel_idx:
  assumes refl: "\<And>w. R w w"
    and trans: "\<And>a b c. R a b \<Longrightarrow> R b c \<Longrightarrow> R a c"
  shows "map_async f i xs w = (w', ys) \<Longrightarrow>
     (\<And>j w. j < length xs \<Longrightarrow> R w (fst (f (i + j) (xs ! j) w))) \<Longrightarrow> R w w'"
proof (induction xs arbitrary: i w w' ys)
  case Nil
  then show ?case by (simp add: refl)
next
  case (Cons x xs)
  obtain w1 y where f: "f i x w = (w1, y)" by (cases "f i x w")
  obtain w2 zs where r: "map_async f (Suc i) xs w1 = (w2, zs)" by (cases "map_async f (Suc i) xs w1")
  from Cons.prems(1) f r have "w' = w2" by simp
  moreover have "R w w1" using Cons.prems(2) [of 0 w] f by simp
  moreover have "R w1 w2"
  proof (rule Cons.IH [OF r])
    fix j wa assume "j < length xs"
    then show "R wa (fst (f (Suc i + j) (xs ! j) wa))" using Cons.prems(2) [of "Suc j" wa] by simp
  qed
  ultimately show ?case using trans by blast
qed

lemma map_async_nth_idx:
  assumes refl: "\<And>w. R w w"
    and trans: "\<And>a b c. R a b \<Longrightarrow> R b c \<Longrightarrow> R a c"
  shows "map_async f i xs w = (w', ys) \<Longrightarrow>
     (\<And>j w. j < length xs \<Longrightarrow> R w (fst (f (i + j) (xs ! j) w))) \<Longrightarrow> j < length xs \<Longrightarrow>
    \<exists>wa. R w wa \<and> ys ! j = snd (f (i + j) (xs ! j) wa)"
proof (induction xs arbitrary: i w w' ys j)
  case Nil
  then show ?case by simp
next
  case (Cons x xs)
  obtain w1 y where f: "f i x w = (w1, y)" by (cases "f i x w")
  obtain w2 zs where r: "map_async f (Suc i) xs w1 = (w2, zs)" by (cases "map_async f (Suc i) xs w1")
  from Cons.prems(1) f r have eq: "w' = w2" "ys = y # zs" by simp_all
  have w_w1: "R w w1" using Cons.prems(2) [of 0 w] f by simp
  show ?case
  proof (cases j)
    case 0
    then show ?thesis using f eq refl by (intro exI [of _ w]) simp
  next
    case (Suc k)
    with Cons.prems(3) have k: "k < length xs" by simp
    have "\<exists>wa. R w1 wa \<and> zs ! k = snd (f (Suc i + k) (xs ! k) wa)"
    proof (rule Cons.IH [OF r _ k])
      fix j wa assume "j < length xs"
      then show "R wa (fst (f (Suc i + j) (xs ! j) wa))" using Cons.prems(2) [of "Suc j" wa] by simp
    qed
    then obtain wa where "R w1 wa" "zs ! k = snd (f (Suc i + k) (xs ! k) wa)" by blast
    then show ?thesis using Suc eq w_w1 trans by (intro exI [of _ wa]) auto
  qed
qed

lemma map_async_nth_prefix:
  assumes refl: "\<And>w. R w w"
    and trans: "\<And>a b c. R a b \<Longrightarrow> R b c \<Longrightarrow> R a c"
  shows "map_async f i xs w = (w', ys) \<Longrightarrow> j < length xs \<Longrightarrow>
     (\<And>k w. k < j \<Longrightarrow> R w (fst (f (i + k) (xs ! k) w))) \<Longrightarrow>
    \<exists>wa. R w wa \<and> ys ! j = snd (f (i + j) (xs ! j) wa)"
proof (induction xs arbitrary: i w w' ys j)
  case Nil
  then show ?case by simp
next
  case (Cons x xs)
  obtain w1 y where f: "f i x w = (w1, y)" by (cases "f i x w")
  obtain w2 zs where r: "map_async f (Suc i) xs w1 = (w2, zs)" by (cases "map_async f (Suc i) xs w1")
  from Cons.prems(1) f r have eq: "w' = w2" "ys = y # zs" by simp_all
  show ?case
  proof (cases j)
    case 0
    then show ?thesis using f eq refl by (intro exI [of _ w]) simp
  next
    case (Suc m)
    with Cons.prems(2) have m: "m < length xs" by simp
    have w_w1: "R w w1" using Cons.prems(3) [of 0 w] f Suc by simp
    have "\<exists>wa. R w1 wa \<and> zs ! m = snd (f (Suc i + m) (xs ! m) wa)"
    proof (rule Cons.IH [OF r m])
      fix k wa assume "k < m"
      then show "R wa (fst (f (Suc i + k) (xs ! k) wa))" using Cons.prems(3) [of "Suc k" wa] Suc by simp
    qed
    then obtain wa where "R w1 wa" "zs ! m = snd (f (Suc i + m) (xs ! m) wa)" by blast
    then show ?thesis using Suc eq w_w1 trans by (intro exI [of _ wa]) auto
  qed
qed

lemma same_outside_refl: "same_outside K w w" by (simp add: same_outside_def)

lemma same_outside_trans: "same_outside K a b \<Longrightarrow> same_outside K b c \<Longrightarrow> same_outside K a c"
  by (simp add: same_outside_def)

lemma same_outside_setItem: "setItem e w k v = Inr w' \<Longrightarrow> k \<in> K \<Longrightarrow> same_outside K w w'"
  by (auto simp: setItem_def same_outside_def update_conv' split: if_splits)

lemma output_key_legacy:
  assumes "j < length (images gen)" and "images gen ! j \<noteq> []" and "\<not> isRef (images gen ! j)"
  shows "getImageKey (gen_id gen) j Output None \<in> set (output_legacy_keys gen)"
proof -
  have "(j, images gen ! j) \<in> set (enumerate 0 (images gen))"
    using assms(1) by (simp add: in_set_enumerate_eq)
  then have "(j, images gen ! j) \<in> set (filter (\<lambda>(index, img). img \<noteq> [] \<and> \<not> isRef img) (enumerate 0 (images gen)))"
    using assms by simp
  then have "(\<lambda>(index, img). getImageKey (gen_id gen) index Output None) (j, images gen ! j)
      \<in> set (map (\<lambda>(index, img). getImageKey (gen_id gen) index Output None)
          (filter (\<lambda>(index, img). img \<noteq> [] \<and> \<not> isRef img) (enumerate 0 (images gen))))"
    unfolding set_map by (rule imageI)
  then show ?thesis by (simp add: output_legacy_keys_def)
qed

lemma input_key_legacy:
  assumes "j < length (inputs_or_empty gen)" and "url (inputs_or_empty gen ! j) \<noteq> []"
    and "\<not> isRef (url (inputs_or_empty gen ! j))"
  shows "getImageKey (gen_id gen) 0 Input (Some (img_id (inputs_or_empty gen ! j))) \<in> set (input_legacy_keys gen)"
proof -
  have "inputs_or_empty gen ! j \<in> set (filter (\<lambda>inp. url inp \<noteq> [] \<and> \<not> isRef (url inp)) (inputs_or_empty gen))"
    using assms by simp
  then have "(\<lambda>inp. getImageKey (gen_id gen) 0 Input (Some (img_id inp))) (inputs_or_empty gen ! j)
      \<in> set (map (\<lambda>inp. getImageKey (gen_id gen) 0 Input (Some (img_id inp)))
          (filter (\<lambda>inp. url inp \<noteq> [] \<and> \<not> isRef (url inp)) (inputs_or_empty gen)))"
    unfolding set_map by (rule imageI)
  then show ?thesis by (simp add: input_legacy_keys_def)
qed

lemma restore_image_writes:
  "img = [] \<or> isRef img \<or> getImageKey g i Output None \<in> K \<Longrightarrow>
   same_outside K w (fst (restore_image e snap g i img w))"
  by (auto simp: restore_image_def same_outside_refl urlToBlob_def getItem_def
      split: sum.splits option.splits item.splits dest: same_outside_setItem)

lemma restore_input_writes:
  "url inp = [] \<or> isRef (url inp) \<or> getImageKey g 0 Input (Some (img_id inp)) \<in> K \<Longrightarrow>
   same_outside K w (fst (restore_input e snap g i inp w))"
  by (auto simp: restore_input_def same_outside_refl urlToBlob_def getItem_def
      split: sum.splits option.splits item.splits dest: same_outside_setItem)

lemma map_async_outside:
  assumes "map_async f i xs w = (w', ys)"
    and "\<And>j w. j < length xs \<Longrightarrow> same_outside K w (fst (f (i + j) (xs ! j) w))"
  shows "same_outside K w w'"
proof (rule map_async_rel_idx [where R = "same_outside K" and f = f and i = i and xs = xs and ys = ys])
  show "map_async f i xs w = (w', ys)" by fact
qed (auto intro: assms(2) same_outside_refl same_outside_trans)

lemma map_async_outside_nth:
  assumes "map_async f i xs w = (w', ys)"
    and "\<And>j w. j < length xs \<Longrightarrow> same_outside K w (fst (f (i + j) (xs ! j) w))"
    and "j < length xs"
  shows "\<exists>wa. same_outside K w wa \<and> ys ! j = snd (f (i + j) (xs ! j) wa)"
proof (rule map_async_nth_idx [where R = "same_outside K" and f = f and i = i and xs = xs and w' = w'])
  show "map_async f i xs w = (w', ys)" by fact
  show "j < length xs" by fact
qed (auto intro: assms(2) same_outside_refl same_outside_trans)

lemma restore_outputs_outside:
  assumes "map_async (restore_image e snap (gen_id gen)) 0 (images gen) w = (w1, imgs)"
    and "set (output_legacy_keys gen) \<subseteq> K"
  shows "same_outside K w w1"
proof (rule map_async_outside [OF assms(1)])
  fix j wa assume "j < length (images gen)"
  then show "same_outside K wa (fst (restore_image e snap (gen_id gen) (0 + j) (images gen ! j) wa))"
    using output_key_legacy [of j gen] assms(2) by (intro restore_image_writes) auto
qed

lemma restore_inputs_outside:
  assumes "map_async (restore_input e snap (gen_id gen)) 0 (inputs_or_empty gen) w = (w2, ins)"
    and "set (input_legacy_keys gen) \<subseteq> K"
  shows "same_outside K w w2"
proof (rule map_async_outside [OF assms(1)])
  fix j wa assume "j < length (inputs_or_empty gen)"
  then show "same_outside K wa (fst (restore_input e snap (gen_id gen) (0 + j) (inputs_or_empty gen ! j) wa))"
    using input_key_legacy [of j gen] assms(2) by (intro restore_input_writes) auto
qed

lemma restore_generation_outside:
  assumes "set (legacy_keys gen) \<subseteq> K"
  shows "same_outside K w (fst (restore_generation e snap n gen w))"
proof -
  obtain w1 imgs where a: "map_async (restore_image e snap (gen_id gen)) 0 (images gen) w = (w1, imgs)"
    by (cases "map_async (restore_image e snap (gen_id gen)) 0 (images gen) w")
  obtain w2 ins where b: "map_async (restore_input e w1 (gen_id gen)) 0 (inputs_or_empty gen) w1 = (w2, ins)"
    by (cases "map_async (restore_input e w1 (gen_id gen)) 0 (inputs_or_empty gen) w1")
  have o: "set (output_legacy_keys gen) \<subseteq> K" and i: "set (input_legacy_keys gen) \<subseteq> K"
    using assms by (simp_all add: legacy_keys_def)
  have "same_outside K w w1" using restore_outputs_outside [OF a o] .
  moreover have "same_outside K w1 w2" using restore_inputs_outside [OF b i] .
  ultimately show ?thesis using a b by (auto simp: restore_generation_def intro: same_outside_trans)
qed

lemma map_async_outside_prefix:
  assumes "map_async f i xs w = (w', ys)" and "j < length xs"
    and "\<And>k w. k < j \<Longrightarrow> same_outside K w (fst (f (i + k) (xs ! k) w))"
  shows "\<exists>wa. same_outside K w wa \<and> ys ! j = snd (f (i + j) (xs ! j) wa)"
proof (rule map_async_nth_prefix [where R = "same_outside K" and f = f and i = i and xs = xs and w' = w'])
  show "map_async f i xs w = (w', ys)" by fact
  show "j < length xs" by fact
qed (auto intro: assms(3) same_outside_refl same_outside_trans)

lemma earlier_keys_subset:
  assumes "k < i" and "i < length gs"
  shows "set (legacy_keys (gs ! k)) \<subseteq> set (keys_before_inputs gs i)"
proof -
  have "gs ! k \<in> set (take i gs)" using assms by (auto simp: in_set_conv_nth intro!: exI [of _ k])
  then show ?thesis by (auto simp: keys_before_inputs_def)
qed

lemma own_output_keys_subset: "set (output_legacy_keys (gs ! i)) \<subseteq> set (keys_before_inputs gs i)"
  by (simp add: keys_before_inputs_def)

lemma legacy_keys_subset: "i < length gs \<Longrightarrow> set (legacy_keys (gs ! i)) \<subseteq> set (migration_keys gs)"
  by (auto simp: migration_keys_def intro!: bexI [of _ "gs ! i"])

lemma restore_image_hydrated:
  "output_hydrated e snap g j img (snd (restore_image e snap g j img w))"
  by (auto simp: output_hydrated_def restore_image_def getItem_def urlToBlob_def setItem_def
      getImageKey_def isRef_def startsWith_def split: option.splits item.splits)

lemma restore_input_hydrated:
  assumes "same_outside (set K) w snap"
  shows "input_hydrated e w K g inp (snd (restore_input e snap g j inp wa))"
proof -
  have "getRefKey (url inp) \<notin> set K \<Longrightarrow>
      map_of (forage snap) (getRefKey (url inp)) = map_of (forage w) (getRefKey (url inp))"
    using assms by (simp add: same_outside_def)
  then show ?thesis
    by (auto simp: input_hydrated_def restore_input_def getItem_def urlToBlob_def setItem_def
        isRef_def startsWith_def split: option.splits item.splits)
qed

lemma store_le_restore_image: "store_le w (fst (restore_image e snap g i img w))"
  by (auto simp: restore_image_def store_le_refl urlToBlob_def getItem_def
      split: sum.splits option.splits item.splits dest: store_le_setItem)

lemma store_le_restore_input: "store_le w (fst (restore_input e snap g i img w))"
  by (auto simp: restore_input_def store_le_refl urlToBlob_def getItem_def
      split: sum.splits option.splits item.splits dest: store_le_setItem)

lemma store_le_restore_generation: "store_le w (fst (restore_generation e snap n gen w))"
proof -
  obtain w1 imgs where a: "map_async (restore_image e snap (gen_id gen)) 0 (images gen) w = (w1, imgs)"
    by (cases "map_async (restore_image e snap (gen_id gen)) 0 (images gen) w")
  obtain w2 ins where b: "map_async (restore_input e w1 (gen_id gen)) 0 (inputs_or_empty gen) w1 = (w2, ins)"
    by (cases "map_async (restore_input e w1 (gen_id gen)) 0 (inputs_or_empty gen) w1")
  have "store_le w w1"
    using map_async_le [OF store_le_restore_image a] .
  moreover have "store_le w1 w2"
    using map_async_le [OF store_le_restore_input b] .
  ultimately show ?thesis using a b by (auto simp: restore_generation_def intro: store_le_trans)
qed

lemma restore_image_same_world: "img = [] \<or> isRef img \<Longrightarrow> fst (restore_image e snap g i img w) = w"
  by (auto simp: restore_image_def getItem_def split: option.splits item.splits)

lemma restore_input_same_world: "url inp = [] \<or> isRef (url inp) \<Longrightarrow> fst (restore_input e snap g i inp w) = w"
  by (auto simp: restore_input_def getItem_def split: option.splits item.splits)

lemma restore_generation_same_world:
  assumes "all_refs gen"
  shows "fst (restore_generation e snap n gen w) = w"
proof -
  have a: "fst (map_async (restore_image e snap (gen_id gen)) 0 (images gen) w) = w"
    using assms by (intro map_async_same_world restore_image_same_world) (auto simp: all_refs_def)
  have b: "fst (map_async (restore_input e w (gen_id gen)) 0 (inputs_or_empty gen) w) = w"
    using assms by (intro map_async_same_world restore_input_same_world) (auto simp: all_refs_def)
  show ?thesis using a b by (auto simp: restore_generation_def split: prod.splits)
qed

lemma map_async_any_nth:
  assumes "map_async f i xs w = (w', ys)" and "j < length xs"
  shows "\<exists>wa. ys ! j = snd (f (i + j) (xs ! j) wa)"
  using map_async_nth_idx [where R = "\<lambda>a b. True" and f = f, OF _ _ assms(1) _ assms(2)] by simp

lemma restore_generation_hydrated:
  assumes run: "restore_generation e snap n gen wa = (wb, h)"
    and so: "same_outside (set K) w snap" "same_outside (set K) w wa"
    and sub: "set (output_legacy_keys gen) \<subseteq> set K"
  shows "h = gen\<lparr>images := images h, inputImages := inputImages h\<rparr>"
    and "length (images h) = length (images gen)"
    and "\<forall>j < length (images gen). output_hydrated e snap (gen_id gen) j (images gen ! j) (images h ! j)"
    and "\<exists>ins. inputImages h = Some ins \<and> length ins = length (inputs_or_empty gen) \<and>
           (\<forall>j < length ins. input_hydrated e w K (gen_id gen) (inputs_or_empty gen ! j) (ins ! j))"
proof -
  obtain w1 imgs where a: "map_async (restore_image e snap (gen_id gen)) 0 (images gen) wa = (w1, imgs)"
    by (cases "map_async (restore_image e snap (gen_id gen)) 0 (images gen) wa")
  obtain w2 ins where b: "map_async (restore_input e w1 (gen_id gen)) 0 (inputs_or_empty gen) w1 = (w2, ins)"
    by (cases "map_async (restore_input e w1 (gen_id gen)) 0 (inputs_or_empty gen) w1")
  from run a b have h: "h = gen\<lparr>images := imgs, inputImages := Some ins\<rparr>"
    by (simp add: restore_generation_def)
  have w1: "same_outside (set K) w w1"
    using so(2) restore_outputs_outside [OF a sub] by (rule same_outside_trans)
  show "h = gen\<lparr>images := images h, inputImages := inputImages h\<rparr>" using h by simp
  show "length (images h) = length (images gen)" using h map_async_length [OF a] by simp
  show "\<forall>j < length (images gen). output_hydrated e snap (gen_id gen) j (images gen ! j) (images h ! j)"
  proof (intro allI impI)
    fix j assume j: "j < length (images gen)"
    from map_async_any_nth [OF a j]
    obtain wx where "imgs ! j = snd (restore_image e snap (gen_id gen) (0 + j) (images gen ! j) wx)" by blast
    then show "output_hydrated e snap (gen_id gen) j (images gen ! j) (images h ! j)"
      using h restore_image_hydrated [of e snap "gen_id gen" j "images gen ! j" wx] by simp
  qed
  have "\<forall>j < length ins. input_hydrated e w K (gen_id gen) (inputs_or_empty gen ! j) (ins ! j)"
  proof (intro allI impI)
    fix j assume "j < length ins"
    then have j: "j < length (inputs_or_empty gen)" using map_async_length [OF b] by simp
    from map_async_any_nth [OF b j]
    obtain wx where "ins ! j = snd (restore_input e w1 (gen_id gen) (0 + j) (inputs_or_empty gen ! j) wx)" by blast
    then show "input_hydrated e w K (gen_id gen) (inputs_or_empty gen ! j) (ins ! j)"
      using restore_input_hydrated [OF w1, of e "gen_id gen" "inputs_or_empty gen ! j" "0 + j" wx] by simp
  qed
  then show "\<exists>ins. inputImages h = Some ins \<and> length ins = length (inputs_or_empty gen) \<and>
           (\<forall>j < length ins. input_hydrated e w K (gen_id gen) (inputs_or_empty gen ! j) (ins ! j))"
    using h map_async_length [OF b] by simp
qed

text \<open>
  C6. When the stored document is hydrated, the load returns every record of the
  document, each with its other fields as stored and with as many output slots and input
  images as stored, whatever blobs are missing. Every field is hydrated on its own from
  the store the load started from: an output slot that holds a reference becomes the
  empty string when no blob is stored under its key, and the object URL of the blob when
  one is; an input image that holds a reference comes back with an empty url when no
  blob is stored under its key, and with the object URL of the blob when one is. For an
  input image this is stated for a key that the load cannot have written before the
  read, that is a key that is neither the key of a legacy output of the same record,
  which is migrated before the inputs of the record are read, nor the key of a legacy
  field of another record. The load changes the store under migrated keys only and
  removes nothing; when no field needs migrating the store is not changed at all.
\<close>

theorem restoreGenerations_missing_blob:
  assumes "has_window w" and "readable e GENERATIONS_KEY"
    and "map_of (forage w) GENERATIONS_KEY = Some (Generations gs)"
  shows "\<exists>w' hs. restoreGenerations e w = (w', Inr (Some hs)) \<and> length hs = length gs \<and>
     store_le w w' \<and> ((\<forall>gen \<in> set gs. all_refs gen) \<longrightarrow> w' = w) \<and>
     (\<forall>k. k \<notin> set (migration_keys gs) \<longrightarrow> map_of (forage w') k = map_of (forage w) k) \<and>
     (\<forall>i < length gs.
        hs ! i = (gs ! i)\<lparr>images := images (hs ! i), inputImages := inputImages (hs ! i)\<rparr> \<and>
        length (images (hs ! i)) = length (images (gs ! i)) \<and>
        (\<forall>j < length (images (gs ! i)).
            (isRef (images (gs ! i) ! j) \<and> getRefKey (images (gs ! i) ! j) \<notin> set (keys w)
               \<longrightarrow> images (hs ! i) ! j = []) \<and>
            output_hydrated e w (gen_id (gs ! i)) j (images (gs ! i) ! j) (images (hs ! i) ! j)) \<and>
        (\<exists>ins. inputImages (hs ! i) = Some ins \<and> length ins = length (inputs_or_empty (gs ! i)) \<and>
           (\<forall>j < length ins.
              (isRef (url (inputs_or_empty (gs ! i) ! j)) \<and>
               readable e (getRefKey (url (inputs_or_empty (gs ! i) ! j))) \<and>
               getRefKey (url (inputs_or_empty (gs ! i) ! j)) \<notin> set (keys_before_inputs gs i) \<and>
               getRefKey (url (inputs_or_empty (gs ! i) ! j)) \<notin> set (keys w)
                 \<longrightarrow> ins ! j = (inputs_or_empty (gs ! i) ! j)\<lparr>url := []\<rparr>) \<and>
              input_hydrated e w (keys_before_inputs gs i) (gen_id (gs ! i))
                (inputs_or_empty (gs ! i) ! j) (ins ! j))))"
proof -
  obtain w' hs where run: "map_async (restore_generation e w) 0 gs w = (w', hs)"
    by (cases "map_async (restore_generation e w) 0 gs w")
  have res: "restoreGenerations e w = (w', Inr (Some hs))"
    using assms run by (simp add: restoreGenerations_def getItem_def)
  have len: "length hs = length gs" using map_async_length [OF run] .
  have le: "store_le w w'" using map_async_le [OF store_le_restore_generation run] .
  have same: "(\<forall>gen \<in> set gs. all_refs gen) \<longrightarrow> w' = w"
  proof
    assume "\<forall>gen \<in> set gs. all_refs gen"
    then have "fst (map_async (restore_generation e w) 0 gs w) = w"
      by (intro map_async_same_world restore_generation_same_world) auto
    with run show "w' = w" by simp
  qed
  have step: "\<And>j wa. j < length gs \<Longrightarrow>
      same_outside (set (migration_keys gs)) wa (fst (restore_generation e w (0 + j) (gs ! j) wa))"
    by (intro restore_generation_outside legacy_keys_subset)
  have "same_outside (set (migration_keys gs)) w w'"
    using map_async_outside [OF run step] .
  then have out: "\<forall>k. k \<notin> set (migration_keys gs) \<longrightarrow> map_of (forage w') k = map_of (forage w) k"
    by (simp add: same_outside_def)
  have absent: "\<And>k. k \<notin> set (keys w) \<Longrightarrow> map_of (forage w) k = None"
    by (simp add: keys_def map_of_eq_None_iff)
  have each: "\<forall>i < length gs.
        hs ! i = (gs ! i)\<lparr>images := images (hs ! i), inputImages := inputImages (hs ! i)\<rparr> \<and>
        length (images (hs ! i)) = length (images (gs ! i)) \<and>
        (\<forall>j < length (images (gs ! i)).
            (isRef (images (gs ! i) ! j) \<and> getRefKey (images (gs ! i) ! j) \<notin> set (keys w)
               \<longrightarrow> images (hs ! i) ! j = []) \<and>
            output_hydrated e w (gen_id (gs ! i)) j (images (gs ! i) ! j) (images (hs ! i) ! j)) \<and>
        (\<exists>ins. inputImages (hs ! i) = Some ins \<and> length ins = length (inputs_or_empty (gs ! i)) \<and>
           (\<forall>j < length ins.
              (isRef (url (inputs_or_empty (gs ! i) ! j)) \<and>
               readable e (getRefKey (url (inputs_or_empty (gs ! i) ! j))) \<and>
               getRefKey (url (inputs_or_empty (gs ! i) ! j)) \<notin> set (keys_before_inputs gs i) \<and>
               getRefKey (url (inputs_or_empty (gs ! i) ! j)) \<notin> set (keys w)
                 \<longrightarrow> ins ! j = (inputs_or_empty (gs ! i) ! j)\<lparr>url := []\<rparr>) \<and>
              input_hydrated e w (keys_before_inputs gs i) (gen_id (gs ! i))
                (inputs_or_empty (gs ! i) ! j) (ins ! j)))"
  proof (intro allI impI)
    fix i assume i: "i < length gs"
    have "\<And>k wa. k < i \<Longrightarrow>
      same_outside (set (keys_before_inputs gs i)) wa (fst (restore_generation e w (0 + k) (gs ! k) wa))"
      using i by (intro restore_generation_outside earlier_keys_subset) simp_all
    from map_async_outside_prefix [OF run i this]
    obtain wa where wa: "same_outside (set (keys_before_inputs gs i)) w wa"
      and y: "hs ! i = snd (restore_generation e w (0 + i) (gs ! i) wa)" by blast
    obtain wb h where r: "restore_generation e w (0 + i) (gs ! i) wa = (wb, h)"
      by (cases "restore_generation e w (0 + i) (gs ! i) wa")
    from y r have h: "hs ! i = h" by simp
    note facts = restore_generation_hydrated [OF r same_outside_refl wa own_output_keys_subset]
    have outs: "\<forall>j < length (images (gs ! i)).
            (isRef (images (gs ! i) ! j) \<and> getRefKey (images (gs ! i) ! j) \<notin> set (keys w)
               \<longrightarrow> images h ! j = []) \<and>
            output_hydrated e w (gen_id (gs ! i)) j (images (gs ! i) ! j) (images h ! j)"
    proof (intro allI impI conjI)
      fix j assume j: "j < length (images (gs ! i))"
      show oh: "output_hydrated e w (gen_id (gs ! i)) j (images (gs ! i) ! j) (images h ! j)"
        using facts(3) j by simp
      assume "isRef (images (gs ! i) ! j) \<and> getRefKey (images (gs ! i) ! j) \<notin> set (keys w)"
      then show "images h ! j = []"
        using oh absent [of "getRefKey (images (gs ! i) ! j)"]
        by (cases "readable e (getRefKey (images (gs ! i) ! j))") (simp_all add: output_hydrated_def)
    qed
    from facts(4) obtain ins where ins: "inputImages h = Some ins"
      "length ins = length (inputs_or_empty (gs ! i))"
      "\<forall>j < length ins. input_hydrated e w (keys_before_inputs gs i) (gen_id (gs ! i))
                (inputs_or_empty (gs ! i) ! j) (ins ! j)" by blast
    have inps: "\<forall>j < length ins.
              (isRef (url (inputs_or_empty (gs ! i) ! j)) \<and>
               readable e (getRefKey (url (inputs_or_empty (gs ! i) ! j))) \<and>
               getRefKey (url (inputs_or_empty (gs ! i) ! j)) \<notin> set (keys_before_inputs gs i) \<and>
               getRefKey (url (inputs_or_empty (gs ! i) ! j)) \<notin> set (keys w)
                 \<longrightarrow> ins ! j = (inputs_or_empty (gs ! i) ! j)\<lparr>url := []\<rparr>) \<and>
              input_hydrated e w (keys_before_inputs gs i) (gen_id (gs ! i))
                (inputs_or_empty (gs ! i) ! j) (ins ! j)"
    proof (intro allI impI conjI)
      fix j assume j: "j < length ins"
      show ih: "input_hydrated e w (keys_before_inputs gs i) (gen_id (gs ! i))
                (inputs_or_empty (gs ! i) ! j) (ins ! j)"
        using ins(3) j by simp
      assume m: "isRef (url (inputs_or_empty (gs ! i) ! j)) \<and>
               readable e (getRefKey (url (inputs_or_empty (gs ! i) ! j))) \<and>
               getRefKey (url (inputs_or_empty (gs ! i) ! j)) \<notin> set (keys_before_inputs gs i) \<and>
               getRefKey (url (inputs_or_empty (gs ! i) ! j)) \<notin> set (keys w)"
      then have "url (ins ! j) = []"
        using ih absent [of "getRefKey (url (inputs_or_empty (gs ! i) ! j))"]
        by (simp add: input_hydrated_def)
      moreover have "ins ! j = (inputs_or_empty (gs ! i) ! j)\<lparr>url := url (ins ! j)\<rparr>"
        using ih by (simp add: input_hydrated_def)
      ultimately show "ins ! j = (inputs_or_empty (gs ! i) ! j)\<lparr>url := []\<rparr>" by simp
    qed
    show "hs ! i = (gs ! i)\<lparr>images := images (hs ! i), inputImages := inputImages (hs ! i)\<rparr> \<and>
        length (images (hs ! i)) = length (images (gs ! i)) \<and>
        (\<forall>j < length (images (gs ! i)).
            (isRef (images (gs ! i) ! j) \<and> getRefKey (images (gs ! i) ! j) \<notin> set (keys w)
               \<longrightarrow> images (hs ! i) ! j = []) \<and>
            output_hydrated e w (gen_id (gs ! i)) j (images (gs ! i) ! j) (images (hs ! i) ! j)) \<and>
        (\<exists>ins. inputImages (hs ! i) = Some ins \<and> length ins = length (inputs_or_empty (gs ! i)) \<and>
           (\<forall>j < length ins.
              (isRef (url (inputs_or_empty (gs ! i) ! j)) \<and>
               readable e (getRefKey (url (inputs_or_empty (gs ! i) ! j))) \<and>
               getRefKey (url (inputs_or_empty (gs ! i) ! j)) \<notin> set (keys_before_inputs gs i) \<and>
               getRefKey (url (inputs_or_empty (gs ! i) ! j)) \<notin> set (keys w)
                 \<longrightarrow> ins ! j = (inputs_or_empty (gs ! i) ! j)\<lparr>url := []\<rparr>) \<and>
              input_hydrated e w (keys_before_inputs gs i) (gen_id (gs ! i))
                (inputs_or_empty (gs ! i) ! j) (ins ! j)))"
      unfolding h using facts(1,2) outs ins(1,2) inps by blast
  qed
  show ?thesis using res len le same out each by blast
qed

theorem restoreGenerations_missing_blob_witness:
  "\<exists>w' hs. restoreGenerations e0 w_mixed = (w', Inr (Some hs)) \<and> length hs = 1 \<and>
     prompt (hs ! 0) = ''a dog'' \<and>
     images (hs ! 0) = [''blob:x'', [], ''blob:data:image/png;base64,AAAA''] \<and>
     map url (inputs_or_empty (hs ! 0)) = [''blob:y'', [], ''blob:data:image/png;base64,BBBB'', []]"
proof -
  have hyp: "has_window w_mixed" "readable e0 GENERATIONS_KEY"
    "map_of (forage w_mixed) GENERATIONS_KEY = Some (Generations [g_mixed])"
    by (simp_all add: w_mixed_def e0_def GENERATIONS_KEY_def)
  from restoreGenerations_missing_blob [OF hyp] obtain w' hs where
    res: "restoreGenerations e0 w_mixed = (w', Inr (Some hs))" and len: "length hs = 1"
    and rec: "hs ! 0 = g_mixed\<lparr>images := images (hs ! 0), inputImages := inputImages (hs ! 0)\<rparr>"
    and ilen: "length (images (hs ! 0)) = length (images g_mixed)"
    and outs: "\<forall>j < length (images g_mixed).
        output_hydrated e0 w_mixed (gen_id g_mixed) j (images g_mixed ! j) (images (hs ! 0) ! j)"
    and inps: "\<exists>ins. inputImages (hs ! 0) = Some ins \<and> length ins = length (inputs_or_empty g_mixed) \<and>
        (\<forall>j < length ins. input_hydrated e0 w_mixed (keys_before_inputs [g_mixed] 0) (gen_id g_mixed)
            (inputs_or_empty g_mixed ! j) (ins ! j))"
    by fastforce
  have p: "prompt (hs ! 0) = ''a dog''"
    using arg_cong [OF rec, of prompt] by (simp add: g_mixed_def)
  have mk: "keys_before_inputs [g_mixed] 0 = [''img:g2:2'']"
    by (simp add: keys_before_inputs_def output_legacy_keys_def g_mixed_def inputs_or_empty_def isRef_def
        startsWith_def getImageKey_def enumerate_eq_zip upt_rec nat_to_string.simps digit_char_def)
  have o0: "images (hs ! 0) ! 0 = ''blob:x''"
    using outs [rule_format, of 0]
    by (simp add: output_hydrated_def g_mixed_def w_mixed_def e0_def isRef_def startsWith_def
        getRefKey_def)
  have o1: "images (hs ! 0) ! 1 = []"
    using outs [rule_format, of 1]
    by (simp add: output_hydrated_def g_mixed_def w_mixed_def e0_def isRef_def startsWith_def
        getRefKey_def)
  have o2: "images (hs ! 0) ! 2 = ''blob:data:image/png;base64,AAAA''"
    using outs [rule_format, of 2]
    by (simp add: output_hydrated_def g_mixed_def w_mixed_def e0_def isRef_def startsWith_def
        getRefKey_def)
  have l3: "length (images (hs ! 0)) = 3" using ilen by (simp add: g_mixed_def)
  have imgs: "images (hs ! 0) = [''blob:x'', [], ''blob:data:image/png;base64,AAAA'']"
  proof (rule nth_equalityI)
    show "length (images (hs ! 0)) = length [''blob:x'', [], ''blob:data:image/png;base64,AAAA'']"
      using l3 by simp
    fix i assume "i < length (images (hs ! 0))"
    then have "i = 0 \<or> i = 1 \<or> i = 2" using l3 by auto
    then show "images (hs ! 0) ! i = [''blob:x'', [], ''blob:data:image/png;base64,AAAA''] ! i"
      using o0 o1 o2 by auto
  qed
  from inps obtain ins where ins: "inputImages (hs ! 0) = Some ins" "length ins = 4"
    and ih: "\<forall>j < length ins. input_hydrated e0 w_mixed (keys_before_inputs [g_mixed] 0) (gen_id g_mixed)
            (inputs_or_empty g_mixed ! j) (ins ! j)"
    by (auto simp: g_mixed_def inputs_or_empty_def)
  have i0: "url (ins ! 0) = ''blob:y''"
    using ih [rule_format, of 0] ins(2) unfolding mk
    by (simp add: input_hydrated_def g_mixed_def w_mixed_def e0_def isRef_def startsWith_def
        getRefKey_def inputs_or_empty_def)
  have i1: "url (ins ! 1) = []"
    using ih [rule_format, of 1] ins(2) unfolding mk
    by (simp add: input_hydrated_def g_mixed_def w_mixed_def e0_def isRef_def startsWith_def
        getRefKey_def inputs_or_empty_def)
  have i2: "url (ins ! 2) = ''blob:data:image/png;base64,BBBB''"
    using ih [rule_format, of 2] ins(2) unfolding mk
    by (simp add: input_hydrated_def g_mixed_def w_mixed_def e0_def isRef_def startsWith_def
        getRefKey_def inputs_or_empty_def)
  have i3: "url (ins ! 3) = []"
    using ih [rule_format, of 3] ins(2) unfolding mk
    by (simp add: input_hydrated_def g_mixed_def w_mixed_def e0_def isRef_def startsWith_def
        getRefKey_def inputs_or_empty_def)
  have urls: "map url ins = [''blob:y'', [], ''blob:data:image/png;base64,BBBB'', []]"
  proof (rule nth_equalityI)
    show "length (map url ins) = length [''blob:y'', [], ''blob:data:image/png;base64,BBBB'', []]"
      using ins(2) by simp
    fix i assume "i < length (map url ins)"
    then have "i = 0 \<or> i = 1 \<or> i = 2 \<or> i = 3" using ins(2) by auto
    then show "map url ins ! i = [''blob:y'', [], ''blob:data:image/png;base64,BBBB'', []] ! i"
      using i0 i1 i2 i3 ins(2) by auto
  qed
  show ?thesis using res len p imgs urls ins(1) by (simp add: inputs_or_empty_def)
qed

subsection \<open>Dehydration\<close>

lemma blob_le_refl: "blob_le w w" by (simp add: blob_le_def)

lemma blob_le_trans: "blob_le a b \<Longrightarrow> blob_le b c \<Longrightarrow> blob_le a c" by (simp add: blob_le_def)

lemma map_async_blob_le:
  assumes "\<And>i x w. blob_le w (fst (f i x w))" and "map_async f i xs w = (w', ys)"
  shows "blob_le w w'"
proof (rule map_async_rel [where R = blob_le and f = f])
  show "map_async f i xs w = (w', ys)" by fact
qed (auto intro: assms(1) blob_le_refl blob_le_trans)

lemma map_async_blob_le_nth:
  assumes "\<And>i x w. blob_le w (fst (f i x w))" and "map_async f i xs w = (w', ys)" and "j < length xs"
  shows "\<exists>wa. blob_le w wa \<and> blob_le (fst (f (i + j) (xs ! j) wa)) w' \<and>
              ys ! j = snd (f (i + j) (xs ! j) wa)"
proof (rule map_async_nth [where R = blob_le and f = f])
  show "map_async f i xs w = (w', ys)" by fact
  show "j < length xs" by fact
qed (auto intro: assms(1) blob_le_refl blob_le_trans)

lemma setItem_Blob: "setItem e w k (Blob b) = Inr w' \<Longrightarrow> blob_le w w' \<and> has_blob w' k"
  by (auto simp: setItem_def blob_le_def has_blob_def update_conv' split: if_splits)

lemma blob_le_persist_image: "blob_le w (fst (persist_image e g i img w))"
  by (auto simp: persist_image_def Let_def blob_le_refl split: sum.splits dest: setItem_Blob)

lemma blob_le_persist_input: "blob_le w (fst (persist_input e g i img w))"
  by (auto simp: persist_input_def Let_def blob_le_refl split: sum.splits dest: setItem_Blob)

lemma blob_le_persist_generation: "blob_le w (fst (persist_generation e n gen w))"
proof -
  obtain w1 imgs where a: "map_async (persist_image e (gen_id gen)) 0 (images gen) w = (w1, imgs)"
    by (cases "map_async (persist_image e (gen_id gen)) 0 (images gen) w")
  obtain w2 ins where b: "map_async (persist_input e (gen_id gen)) 0 (inputs_or_empty gen) w1 = (w2, ins)"
    by (cases "map_async (persist_input e (gen_id gen)) 0 (inputs_or_empty gen) w1")
  have "blob_le w w1" using map_async_blob_le [OF blob_le_persist_image a] .
  moreover have "blob_le w1 w2" using map_async_blob_le [OF blob_le_persist_input b] .
  ultimately show ?thesis using a b by (auto simp: persist_generation_def intro: blob_le_trans)
qed

lemma isRef_not_empty: "isRef s \<Longrightarrow> s \<noteq> []"
  by (auto simp: isRef_def startsWith_def)

lemma isRef_makeRef_output: "isRef (makeRef (getImageKey g i t x))"
  by (auto simp: isRef_def makeRef_def getImageKey_def startsWith_def split: image_type.splits option.splits)

lemma getRefKey_makeRef: "getRefKey (makeRef k) = k"
  by (simp add: getRefKey_def makeRef_def startsWith_def)

lemma persist_image_cases:
  assumes "dehydrate_ok e"
  shows "(img = [] \<longrightarrow> snd (persist_image e g i img w) = []) \<and>
         (isRef img \<longrightarrow> snd (persist_image e g i img w) = img) \<and>
         (img \<noteq> [] \<and> \<not> isRef img \<longrightarrow>
            snd (persist_image e g i img w) = makeRef (getImageKey g i Output None) \<and>
            (\<not> startsWith img ''blob:'' \<longrightarrow>
               has_blob (fst (persist_image e g i img w)) (getImageKey g i Output None)))"
proof -
  obtain b where b: "fetch_url e img = Some b" and wr: "\<And>k. writable e k"
    using assms by (auto simp: dehydrate_ok_def)
  show ?thesis
    by (auto simp: persist_image_def Let_def urlToBlob_def setItem_def has_blob_def
        update_conv' isRef_not_empty b wr)
qed

lemma persist_input_cases:
  assumes "dehydrate_ok e"
  shows "snd (persist_input e g i inp w) = inp\<lparr>url := url (snd (persist_input e g i inp w))\<rparr> \<and>
         (url inp = [] \<longrightarrow> url (snd (persist_input e g i inp w)) = []) \<and>
         (isRef (url inp) \<longrightarrow> url (snd (persist_input e g i inp w)) = url inp) \<and>
         (url inp \<noteq> [] \<and> \<not> isRef (url inp) \<longrightarrow>
            url (snd (persist_input e g i inp w)) = makeRef (getImageKey g 0 Input (Some (img_id inp))) \<and>
            (\<not> startsWith (url inp) ''blob:'' \<longrightarrow>
               has_blob (fst (persist_input e g i inp w)) (getImageKey g 0 Input (Some (img_id inp)))))"
proof -
  obtain b where b: "fetch_url e (url inp) = Some b" and wr: "\<And>k. writable e k"
    using assms by (auto simp: dehydrate_ok_def)
  show ?thesis
    by (auto simp: persist_input_def Let_def urlToBlob_def setItem_def has_blob_def
        update_conv' isRef_not_empty b wr)
qed

lemma getImageKey_img: "startsWith (getImageKey g i t x) ''img:''"
  by (auto simp: getImageKey_def startsWith_def split: image_type.splits option.splits)

lemma getImageKey_output: "getImageKey g j Output None = ''img:'' @ g @ '':'' @ nat_to_string j"
  by (simp add: getImageKey_def)

lemma getImageKey_input: "x \<noteq> [] \<Longrightarrow> getImageKey g j Input (Some x) = ''img:'' @ g @ '':input:'' @ x"
  by (simp add: getImageKey_def)

lemma persist_image_dehydrated:
  assumes "dehydrate_ok e" and "blob_le (fst (persist_image e g j img w)) wz"
  shows "image_dehydrated wz g j img (snd (persist_image e g j img w))"
proof -
  have "has_blob (fst (persist_image e g j img w)) (getImageKey g j Output None) \<Longrightarrow>
        has_blob wz (getImageKey g j Output None)"
    using assms(2) getImageKey_img by (auto simp: blob_le_def)
  then show ?thesis
    using persist_image_cases [OF assms(1), where img = img and g = g and i = j and w = w] isRef_makeRef_output [of g j Output None]
    unfolding image_dehydrated_def getImageKey_output [symmetric]
    by (auto simp: makeRef_def)
qed

lemma persist_input_dehydrated:
  assumes "dehydrate_ok e" and "blob_le (fst (persist_input e g j inp w)) wz"
  shows "input_dehydrated wz g inp (snd (persist_input e g j inp w))"
proof -
  have "has_blob (fst (persist_input e g j inp w)) (getImageKey g 0 Input (Some (img_id inp))) \<Longrightarrow>
        has_blob wz (getImageKey g 0 Input (Some (img_id inp)))"
    using assms(2) getImageKey_img by (auto simp: blob_le_def)
  then show ?thesis
    using persist_input_cases [OF assms(1), where inp = inp and g = g and i = j and w = w]
      isRef_makeRef_output [of g 0 Input "Some (img_id inp)"]
      getImageKey_input [of "img_id inp" g 0]
    unfolding input_dehydrated_def
    by (auto simp: makeRef_def)
qed

lemma persist_generation_dehydrated:
  assumes ok: "dehydrate_ok e" and run: "persist_generation e n gen w = (w', p)" and le: "blob_le w' wz"
  shows "p = gen\<lparr>images := images p, inputImages := inputImages p\<rparr>"
    and "length (images p) = length (images gen)"
    and "\<forall>j < length (images gen). image_dehydrated wz (gen_id gen) j (images gen ! j) (images p ! j)"
    and "\<exists>ins. inputImages p = Some ins \<and> length ins = length (inputs_or_empty gen) \<and>
           (\<forall>j < length ins. input_dehydrated wz (gen_id gen) (inputs_or_empty gen ! j) (ins ! j))"
proof -
  obtain w1 imgs where a: "map_async (persist_image e (gen_id gen)) 0 (images gen) w = (w1, imgs)"
    by (cases "map_async (persist_image e (gen_id gen)) 0 (images gen) w")
  obtain w2 ins where b: "map_async (persist_input e (gen_id gen)) 0 (inputs_or_empty gen) w1 = (w2, ins)"
    by (cases "map_async (persist_input e (gen_id gen)) 0 (inputs_or_empty gen) w1")
  from run a b have p: "p = gen\<lparr>images := imgs, inputImages := Some ins\<rparr>" and w': "w' = w2"
    by (simp_all add: persist_generation_def)
  have w12: "blob_le w1 w2" using map_async_blob_le [OF blob_le_persist_input b] .
  show "p = gen\<lparr>images := images p, inputImages := inputImages p\<rparr>" using p by simp
  show "length (images p) = length (images gen)" using p map_async_length [OF a] by simp
  show "\<forall>j < length (images gen). image_dehydrated wz (gen_id gen) j (images gen ! j) (images p ! j)"
  proof (intro allI impI)
    fix j assume j: "j < length (images gen)"
    from map_async_blob_le_nth [OF blob_le_persist_image a j]
    obtain wa where wa: "blob_le (fst (persist_image e (gen_id gen) (0 + j) (images gen ! j) wa)) w1"
      and y: "imgs ! j = snd (persist_image e (gen_id gen) (0 + j) (images gen ! j) wa)" by blast
    from wa w12 le w' have "blob_le (fst (persist_image e (gen_id gen) j (images gen ! j) wa)) wz"
      using blob_le_trans by force
    from persist_image_dehydrated [OF ok this] y p
    show "image_dehydrated wz (gen_id gen) j (images gen ! j) (images p ! j)" by simp
  qed
  have "\<forall>j < length ins. input_dehydrated wz (gen_id gen) (inputs_or_empty gen ! j) (ins ! j)"
  proof (intro allI impI)
    fix j assume "j < length ins"
    then have j: "j < length (inputs_or_empty gen)" using map_async_length [OF b] by simp
    from map_async_blob_le_nth [OF blob_le_persist_input b j]
    obtain wa where wa: "blob_le (fst (persist_input e (gen_id gen) (0 + j) (inputs_or_empty gen ! j) wa)) w2"
      and y: "ins ! j = snd (persist_input e (gen_id gen) (0 + j) (inputs_or_empty gen ! j) wa)" by blast
    from wa le w' have "blob_le (fst (persist_input e (gen_id gen) j (inputs_or_empty gen ! j) wa)) wz"
      using blob_le_trans by force
    from persist_input_dehydrated [OF ok this] y
    show "input_dehydrated wz (gen_id gen) (inputs_or_empty gen ! j) (ins ! j)" by simp
  qed
  then show "\<exists>ins. inputImages p = Some ins \<and> length ins = length (inputs_or_empty gen) \<and>
           (\<forall>j < length ins. input_dehydrated wz (gen_id gen) (inputs_or_empty gen ! j) (ins ! j))"
    using p map_async_length [OF b] by simp
qed

lemma setItem_document:
  assumes "setItem e w GENERATIONS_KEY v = Inr w'"
  shows "blob_le w w'" and "map_of (forage w') GENERATIONS_KEY = Some v"
  using assms
  by (auto simp: setItem_def blob_le_def has_blob_def update_conv' GENERATIONS_KEY_def startsWith_def
      split: if_splits)

text \<open>
  C3, as amended. After \<open>persistGenerations\<close> has completed with every fetch and every
  write succeeding, every non-empty image field of every persisted record is a
  reference string. A field that already was a reference is kept as it is. Any other
  non-empty field becomes \<open>ref:\<close> followed by \<open>img:generationId:index\<close> for an output slot
  and by \<open>img:generationId:input:inputImageId\<close> for an input image with a non-empty id.
  A get on that key returns stored bytes for every field that was neither a reference
  nor a \<open>blob:\<close> handle; for a \<open>blob:\<close> handle nothing is written, the bytes being
  assumed to be in the store already.
\<close>

theorem persistGenerations_dehydrates:
  assumes "has_window w" and "dehydrate_ok e"
  shows "\<exists>w' ps. persistGenerations e w gs = (w', Inr ()) \<and>
     map_of (forage w') GENERATIONS_KEY = Some (Generations ps) \<and> length ps = length gs \<and>
     (\<forall>i < length gs.
        ps ! i = (gs ! i)\<lparr>images := images (ps ! i), inputImages := inputImages (ps ! i)\<rparr> \<and>
        length (images (ps ! i)) = length (images (gs ! i)) \<and>
        (\<forall>j < length (images (gs ! i)).
            image_dehydrated w' (gen_id (gs ! i)) j (images (gs ! i) ! j) (images (ps ! i) ! j)) \<and>
        (\<exists>ins. inputImages (ps ! i) = Some ins \<and> length ins = length (inputs_or_empty (gs ! i)) \<and>
           (\<forall>j < length ins.
               input_dehydrated w' (gen_id (gs ! i)) (inputs_or_empty (gs ! i) ! j) (ins ! j))))"
proof -
  obtain w1 ps where run: "map_async (persist_generation e) 0 gs w = (w1, ps)"
    by (cases "map_async (persist_generation e) 0 gs w")
  have "writable e GENERATIONS_KEY" using assms(2) by (simp add: dehydrate_ok_def)
  then obtain w' where doc: "setItem e w1 GENERATIONS_KEY (Generations ps) = Inr w'"
    by (simp add: setItem_def)
  have res: "persistGenerations e w gs = (w', Inr ())"
    using assms(1) run doc by (simp add: persistGenerations_def)
  have len: "length ps = length gs" using map_async_length [OF run] .
  have each: "\<forall>i < length gs.
        ps ! i = (gs ! i)\<lparr>images := images (ps ! i), inputImages := inputImages (ps ! i)\<rparr> \<and>
        length (images (ps ! i)) = length (images (gs ! i)) \<and>
        (\<forall>j < length (images (gs ! i)).
            image_dehydrated w' (gen_id (gs ! i)) j (images (gs ! i) ! j) (images (ps ! i) ! j)) \<and>
        (\<exists>ins. inputImages (ps ! i) = Some ins \<and> length ins = length (inputs_or_empty (gs ! i)) \<and>
           (\<forall>j < length ins.
               input_dehydrated w' (gen_id (gs ! i)) (inputs_or_empty (gs ! i) ! j) (ins ! j)))"
  proof (intro allI impI)
    fix i assume i: "i < length gs"
    from map_async_blob_le_nth [OF blob_le_persist_generation run i]
    obtain wa where wa: "blob_le (fst (persist_generation e (0 + i) (gs ! i) wa)) w1"
      and y: "ps ! i = snd (persist_generation e (0 + i) (gs ! i) wa)" by blast
    obtain wb p where r: "persist_generation e (0 + i) (gs ! i) wa = (wb, p)"
      by (cases "persist_generation e (0 + i) (gs ! i) wa")
    from wa r setItem_document(1) [OF doc] have le': "blob_le wb w'"
      using blob_le_trans by force
    from y r have p: "ps ! i = p" by simp
    show "ps ! i = (gs ! i)\<lparr>images := images (ps ! i), inputImages := inputImages (ps ! i)\<rparr> \<and>
        length (images (ps ! i)) = length (images (gs ! i)) \<and>
        (\<forall>j < length (images (gs ! i)).
            image_dehydrated w' (gen_id (gs ! i)) j (images (gs ! i) ! j) (images (ps ! i) ! j)) \<and>
        (\<exists>ins. inputImages (ps ! i) = Some ins \<and> length ins = length (inputs_or_empty (gs ! i)) \<and>
           (\<forall>j < length ins.
               input_dehydrated w' (gen_id (gs ! i)) (inputs_or_empty (gs ! i) ! j) (ins ! j)))"
      unfolding p using persist_generation_dehydrated [OF assms(2) r le'] by blast
  qed
  show ?thesis using res setItem_document(2) [OF doc] len each by blast
qed

lemma dehydrate_ok_e0: "dehydrate_ok e0"
  by (simp add: dehydrate_ok_def e0_def)

lemma persist_g_fresh:
  "persistGenerations e0 w0 [g_fresh] =
     (w0\<lparr>forage := [(''img:g2:0'', Blob ''data:image/png;base64,AAAA''),
                     (''img:g2:input:att-7'', Blob ''https://x/in.png''),
                     (''seedream:generations'',
                      Generations [g_fresh\<lparr>images := [''ref:img:g2:0'', []],
                         inputImages := Some [\<lparr>img_id = ''att-7'', img_name = ''in.png'',
                            url = ''ref:img:g2:input:att-7'', img_width = 10, img_height = 10\<rparr>]\<rparr>])]\<rparr>,
      Inr ())"
  by (simp add: persistGenerations_def persist_generation_def persist_image_def persist_input_def
      w0_def e0_def g_fresh_def isRef_def startsWith_def getImageKey_def makeRef_def urlToBlob_def
      setItem_def inputs_or_empty_def GENERATIONS_KEY_def nat_to_string.simps digit_char_def Let_def)

theorem persistGenerations_dehydrates_witness:
  "has_window w0 \<and> dehydrate_ok e0 \<and>
   (\<exists>w' ps. persistGenerations e0 w0 [g_fresh] = (w', Inr ()) \<and>
      map_of (forage w') GENERATIONS_KEY = Some (Generations ps) \<and>
      images (ps ! 0) = [''ref:img:g2:0'', []] \<and>
      map_of (forage w') ''img:g2:0'' = Some (Blob ''data:image/png;base64,AAAA'') \<and>
      image_dehydrated w' ''g2'' 0 ''data:image/png;base64,AAAA'' (images (ps ! 0) ! 0))"
proof -
  have h: "has_window w0" by (simp add: w0_def)
  from persistGenerations_dehydrates [OF h dehydrate_ok_e0, of "[g_fresh]"]
  obtain w' ps where run: "persistGenerations e0 w0 [g_fresh] = (w', Inr ())"
    and doc: "map_of (forage w') GENERATIONS_KEY = Some (Generations ps)"
    and im: "\<forall>j < length (images ([g_fresh] ! 0)).
            image_dehydrated w' (gen_id ([g_fresh] ! 0)) j (images ([g_fresh] ! 0) ! j) (images (ps ! 0) ! j)"
    by auto
  from im [rule_format, of 0]
  have d: "image_dehydrated w' ''g2'' 0 ''data:image/png;base64,AAAA'' (images (ps ! 0) ! 0)"
    by (simp add: g_fresh_def)
  from run doc persist_g_fresh have "images (ps ! 0) = [''ref:img:g2:0'', []]"
    and "map_of (forage w') ''img:g2:0'' = Some (Blob ''data:image/png;base64,AAAA'')"
    by (auto simp: GENERATIONS_KEY_def g_fresh_def)
  with h dehydrate_ok_e0 run doc d show ?thesis by blast
qed

text \<open>
  C3, as stated, fails: a record whose output slot holds a \<open>blob:\<close> handle is persisted
  with the reference \<open>ref:img:g1:0\<close> although every write succeeds and the store holds
  nothing under \<open>img:g1:0\<close>.
\<close>

theorem persistGenerations_blob_counterexample:
  "dehydrate_ok e0 \<and> has_window w0 \<and>
   snd (persistGenerations e0 w0 [g1]) = Inr () \<and>
   map_of (forage (fst (persistGenerations e0 w0 [g1]))) GENERATIONS_KEY
     = Some (Generations [g1\<lparr>images := [''ref:img:g1:0'', []]\<rparr>]) \<and>
   map_of (forage (fst (persistGenerations e0 w0 [g1]))) ''img:g1:0'' = None"
  using dehydrate_ok_e0
  by (simp add: persistGenerations_def persist_generation_def persist_image_def persist_input_def
      w0_def e0_def g1_def isRef_def startsWith_def getImageKey_def makeRef_def urlToBlob_def
      setItem_def inputs_or_empty_def GENERATIONS_KEY_def nat_to_string.simps digit_char_def Let_def)

subsection \<open>Pending recovery\<close>

lemma trim_empty: "trim [] = []"
  by (simp add: trim_def)

text \<open>
  C4. When no credentials are configured (both API keys are empty), the recovery pass
  discards every pending record restored from storage: the pending list becomes empty,
  the persisted pending document is removed, and the completed list is left as it was,
  so that no recovered pending record is added to it.
\<close>

theorem recovery_without_credentials:
  assumes "has_window w" and "recovery_due p" and "no_keys p"
  shows "\<exists>w' p'. pending_reconciliation rnd w p = (w', p') \<and>
           pendingGenerations p' = [] \<and>
           map_of (forage w') PENDING_KEY = None \<and>
           generations p' = generations p \<and>
           (\<forall>g \<in> set (pendingGenerations p). g \<notin> set (generations p) \<longrightarrow> g \<notin> set (generations p')) \<and>
           pendingReconciledRef p'"
  using assms
  by (simp add: pending_reconciliation_def recovery_due_def no_keys_def clearPending_def
      removeItem_def delete_conv')

lemma reconcile_ids_spec:
  "reconcile_ids rnd ids n ps = (n', rs) \<Longrightarrow>
     length rs = length ps \<and>
     n' = n + length (filter (\<lambda>g. gen_id g \<in> set ids) ps) \<and>
     (\<forall>i < length ps.
        (gen_id (ps ! i) \<notin> set ids \<longrightarrow> rs ! i = ps ! i) \<and>
        (gen_id (ps ! i) \<in> set ids \<longrightarrow>
           rs ! i = (ps ! i)\<lparr>gen_id := ''generation-'' @
              rnd (n + length (filter (\<lambda>g. gen_id g \<in> set ids) (take i ps)))\<rparr>))"
proof (induction ps arbitrary: n n' rs)
  case Nil
  then show ?case by simp
next
  case (Cons g ps)
  show ?case
  proof (cases "Set_has ids (gen_id g)")
    case True
    obtain m out where r: "reconcile_ids rnd ids (Suc n) ps = (m, out)"
      by (cases "reconcile_ids rnd ids (Suc n) ps")
    with Cons.prems True have rs: "rs = g\<lparr>gen_id := createId ''generation'' (rnd n)\<rparr> # out"
      and n': "n' = m" by simp_all
    from Cons.IH [OF r] True show ?thesis unfolding rs n'
      by (auto simp: Set_has_def createId_def nth_Cons split: nat.splits)
  next
    case False
    obtain m out where r: "reconcile_ids rnd ids n ps = (m, out)"
      by (cases "reconcile_ids rnd ids n ps")
    with Cons.prems False have rs: "rs = g # out" and n': "n' = m" by simp_all
    from Cons.IH [OF r] False show ?thesis unfolding rs n'
      by (auto simp: Set_has_def nth_Cons split: nat.splits)
  qed
qed

lemma filter_take_mono: "i \<le> j \<Longrightarrow> length (filter P (take i xs)) \<le> length (filter P (take j xs))"
proof -
  assume "i \<le> j"
  then have "take j xs = take i xs @ take (j - i) (drop i xs)"
    using take_add [of i "j - i" xs] by simp
  then show ?thesis by simp
qed

lemma filter_take_Suc:
  "i < length xs \<Longrightarrow> P (xs ! i) \<Longrightarrow> length (filter P (take (Suc i) xs)) = Suc (length (filter P (take i xs)))"
  by (simp add: take_Suc_conv_app_nth)

lemma filter_take_less:
  assumes "i < length xs" and "P (xs ! i)" and "i < j"
  shows "length (filter P (take i xs)) < length (filter P (take j xs))"
proof -
  have "length (filter P (take (Suc i) xs)) \<le> length (filter P (take j xs))"
    using assms(3) by (intro filter_take_mono) simp
  then show ?thesis using filter_take_Suc [of i xs P] assms(1,2) by simp
qed

lemma draw_index_less:
  "i < length (pendingGenerations p) \<Longrightarrow> collides p (pendingGenerations p ! i) \<Longrightarrow> i < j \<Longrightarrow>
   draw_index p i < draw_index p j"
  by (simp add: draw_index_def filter_take_less)

lemma draw_index_bound:
  assumes "i < length (pendingGenerations p)" and "collides p (pendingGenerations p ! i)"
  shows "draw_index p i < draws p + length (filter (collides p) (pendingGenerations p))"
proof -
  have "length (filter (collides p) (take i (pendingGenerations p)))
      < length (filter (collides p) (take (length (pendingGenerations p)) (pendingGenerations p)))"
    using assms by (intro filter_take_less) simp_all
  then show ?thesis by (simp add: draw_index_def)
qed

text \<open>
  C5, as amended. When at least one credential is configured, the recovery pass puts every pending
  record restored from storage in front of the completed list, in order, with all its
  fields intact (its image slots, empty ones included) except possibly its id, and the
  pending list becomes empty. A record whose id is not among the completed ids is
  promoted unchanged. A record whose id collides gets the id that \<open>createId\<close> mints:
  \<open>generation-\<close> followed by the next draw of the random source, every renamed record
  taking a draw of its own that no earlier record took. The minted id is not compared
  with the ids in use: the promoted records are clear of the completed ids when the
  draws taken are, and their ids are pairwise distinct when the pending ids were, the
  draws taken differ from one another and none of them gives a pending id.
\<close>

theorem recovery_with_credentials:
  assumes "recovery_due p" and "\<not> no_keys p"
  shows "\<exists>p' promoted. pending_reconciliation rnd w p = (w, p') \<and>
           pendingGenerations p' = [] \<and>
           generations p' = promoted @ generations p \<and>
           length promoted = length (pendingGenerations p) \<and>
           draws p' = draws p + length (filter (collides p) (pendingGenerations p)) \<and>
           (\<forall>i < length (pendingGenerations p).
              promoted ! i = (pendingGenerations p ! i)\<lparr>gen_id := gen_id (promoted ! i)\<rparr> \<and>
              images (promoted ! i) = images (pendingGenerations p ! i) \<and>
              (gen_id (pendingGenerations p ! i) \<notin> gen_id ` set (generations p) \<longrightarrow>
                 promoted ! i = pendingGenerations p ! i) \<and>
              (gen_id (pendingGenerations p ! i) \<in> gen_id ` set (generations p) \<longrightarrow>
                 gen_id (promoted ! i) = ''generation-'' @ rnd (draw_index p i) \<and>
                 draws p \<le> draw_index p i \<and> draw_index p i < draws p' \<and>
                 (\<forall>j < i. collides p (pendingGenerations p ! j) \<longrightarrow> draw_index p j < draw_index p i))) \<and>
           ((\<forall>k. draws p \<le> k \<and> k < draws p' \<longrightarrow>
                 ''generation-'' @ rnd k \<notin> gen_id ` set (generations p))
              \<longrightarrow> (\<forall>g \<in> set promoted. gen_id g \<notin> gen_id ` set (generations p))) \<and>
           ((\<forall>k. draws p \<le> k \<and> k < draws p' \<longrightarrow>
                 ''generation-'' @ rnd k \<notin> gen_id ` set (pendingGenerations p)) \<and>
            inj_on rnd {draws p ..< draws p'} \<and> distinct (map gen_id (pendingGenerations p))
              \<longrightarrow> distinct (map gen_id promoted))"
proof -
  define pend where "pend = pendingGenerations p"
  define used where "used = gen_id ` set (generations p)"
  obtain n' rs where r:
    "reconcile_ids rnd (new_Set (map gen_id (generations p))) (draws p) pend = (n', rs)"
    by (cases "reconcile_ids rnd (new_Set (map gen_id (generations p))) (draws p) pend")
  let ?p' = "p\<lparr>generations := rs @ generations p, pendingGenerations := [],
                    pendingReconciledRef := True, pendingHydratedRef := False, draws := n'\<rparr>"
  have run: "pending_reconciliation rnd w p = (w, ?p')"
    using assms r by (auto simp: pending_reconciliation_def recovery_due_def no_keys_def pend_def)
  have col: "collides p = (\<lambda>g. gen_id g \<in> set (new_Set (map gen_id (generations p))))"
    by (simp add: collides_def fun_eq_iff set_new_Set)
  have cd: "\<And>g. collides p g = (gen_id g \<in> used)" by (simp add: collides_def used_def)
  have len: "length rs = length pend"
    and n': "n' = draws p + length (filter (collides p) pend)"
    and keep: "\<And>i. i < length pend \<Longrightarrow> \<not> collides p (pend ! i) \<Longrightarrow> rs ! i = pend ! i"
    and mint: "\<And>i. i < length pend \<Longrightarrow> collides p (pend ! i) \<Longrightarrow>
                 rs ! i = (pend ! i)\<lparr>gen_id := ''generation-'' @ rnd (draw_index p i)\<rparr>"
    using reconcile_ids_spec [OF r] unfolding col draw_index_def pend_def by simp_all
  have idx: "\<And>i. i < length pend \<Longrightarrow> collides p (pend ! i) \<Longrightarrow>
      draws p \<le> draw_index p i \<and> draw_index p i < n' \<and>
      (\<forall>j < i. collides p (pend ! j) \<longrightarrow> draw_index p j < draw_index p i)"
    unfolding n' pend_def using draw_index_bound [of _ p] draw_index_less [of _ p]
    by (simp add: draw_index_def)
  have each: "\<forall>i < length pend.
              rs ! i = (pend ! i)\<lparr>gen_id := gen_id (rs ! i)\<rparr> \<and>
              images (rs ! i) = images (pend ! i) \<and>
              (gen_id (pend ! i) \<notin> used \<longrightarrow> rs ! i = pend ! i) \<and>
              (gen_id (pend ! i) \<in> used \<longrightarrow>
                 gen_id (rs ! i) = ''generation-'' @ rnd (draw_index p i) \<and>
                 draws p \<le> draw_index p i \<and> draw_index p i < n' \<and>
                 (\<forall>j < i. collides p (pend ! j) \<longrightarrow> draw_index p j < draw_index p i))"
  proof (intro allI impI)
    fix i assume i: "i < length pend"
    show "rs ! i = (pend ! i)\<lparr>gen_id := gen_id (rs ! i)\<rparr> \<and>
              images (rs ! i) = images (pend ! i) \<and>
              (gen_id (pend ! i) \<notin> used \<longrightarrow> rs ! i = pend ! i) \<and>
              (gen_id (pend ! i) \<in> used \<longrightarrow>
                 gen_id (rs ! i) = ''generation-'' @ rnd (draw_index p i) \<and>
                 draws p \<le> draw_index p i \<and> draw_index p i < n' \<and>
                 (\<forall>j < i. collides p (pend ! j) \<longrightarrow> draw_index p j < draw_index p i))"
    proof (cases "collides p (pend ! i)")
      case True
      then show ?thesis using mint [OF i True] idx [OF i True] by (simp add: cd)
    next
      case False
      then show ?thesis using keep [OF i False] by (simp add: cd)
    qed
  qed
  have clear: "(\<forall>k. draws p \<le> k \<and> k < n' \<longrightarrow> ''generation-'' @ rnd k \<notin> used)
              \<longrightarrow> (\<forall>g \<in> set rs. gen_id g \<notin> used)"
  proof (intro impI ballI)
    fix g assume free: "\<forall>k. draws p \<le> k \<and> k < n' \<longrightarrow> ''generation-'' @ rnd k \<notin> used"
      and "g \<in> set rs"
    then obtain i where i: "i < length pend" and g: "g = rs ! i"
      using len by (auto simp: in_set_conv_nth)
    show "gen_id g \<notin> used"
    proof (cases "collides p (pend ! i)")
      case True
      then show ?thesis using mint [OF i True] idx [OF i True] free g by simp
    next
      case False
      then show ?thesis using keep [OF i False] g by (simp add: cd)
    qed
  qed
  have dist: "(\<forall>k. draws p \<le> k \<and> k < n' \<longrightarrow> ''generation-'' @ rnd k \<notin> gen_id ` set pend) \<and>
            inj_on rnd {draws p ..< n'} \<and> distinct (map gen_id pend)
              \<longrightarrow> distinct (map gen_id rs)"
  proof (intro impI)
    assume h: "(\<forall>k. draws p \<le> k \<and> k < n' \<longrightarrow> ''generation-'' @ rnd k \<notin> gen_id ` set pend) \<and>
            inj_on rnd {draws p ..< n'} \<and> distinct (map gen_id pend)"
    have neq: "gen_id (rs ! i) \<noteq> gen_id (rs ! j)" if i: "i < length pend" and j: "j < length pend"
      and ij: "i < j" for i j
    proof -
      have pd: "gen_id (pend ! i) \<noteq> gen_id (pend ! j)"
        using h i j ij by (auto simp: distinct_conv_nth)
      have pi: "gen_id (pend ! i) \<in> gen_id ` set pend" using i by simp
      have pj: "gen_id (pend ! j) \<in> gen_id ` set pend" using j by simp
      show ?thesis
      proof (cases "collides p (pend ! i)")
        case ci: True
        show ?thesis
        proof (cases "collides p (pend ! j)")
          case cj: True
          have "draw_index p i < draw_index p j" using idx [OF j cj] ij ci by simp
          moreover have "draw_index p i \<in> {draws p ..< n'}" using idx [OF i ci] by simp
          moreover have "draw_index p j \<in> {draws p ..< n'}" using idx [OF j cj] by simp
          moreover have "inj_on rnd {draws p ..< n'}" using h by simp
          ultimately have "rnd (draw_index p i) \<noteq> rnd (draw_index p j)"
            using inj_on_eq_iff [of rnd "{draws p ..< n'}" "draw_index p i" "draw_index p j"] by simp
          then show ?thesis using mint [OF i ci] mint [OF j cj] by simp
        next
          case cj: False
          have "''generation-'' @ rnd (draw_index p i) \<notin> gen_id ` set pend"
            using h idx [OF i ci] by blast
          then show ?thesis using mint [OF i ci] keep [OF j cj] pj by auto
        qed
      next
        case ci: False
        show ?thesis
        proof (cases "collides p (pend ! j)")
          case cj: True
          have "''generation-'' @ rnd (draw_index p j) \<notin> gen_id ` set pend"
            using h idx [OF j cj] by blast
          then show ?thesis using mint [OF j cj] keep [OF i ci] pi by auto
        next
          case cj: False
          then show ?thesis using keep [OF i ci] keep [OF j cj] pd by simp
        qed
      qed
    qed
    show "distinct (map gen_id rs)"
      unfolding distinct_conv_nth
    proof (intro allI impI)
      fix i j assume "i < length (map gen_id rs)" "j < length (map gen_id rs)" "i \<noteq> j"
      then have i: "i < length pend" and j: "j < length pend" using len by simp_all
      then have ri: "i < length rs" and rj: "j < length rs" using len by simp_all
      from \<open>i \<noteq> j\<close> consider "i < j" | "j < i" by linarith
      then have "gen_id (rs ! i) \<noteq> gen_id (rs ! j)"
      proof cases
        case 1
        then show ?thesis using neq [OF i j] by simp
      next
        case 2
        then show ?thesis using neq [OF j i] by auto
      qed
      then show "map gen_id rs ! i \<noteq> map gen_id rs ! j" using ri rj by simp
    qed
  qed
  have d': "draws ?p' = n'" by simp
  show ?thesis
    apply (intro exI [of _ ?p'] exI [of _ rs] conjI)
    subgoal using run .
    subgoal by simp
    subgoal by simp
    subgoal using len by (simp add: pend_def)
    subgoal using n' by (simp add: pend_def)
    subgoal using each unfolding d' pend_def used_def .
    subgoal using clear unfolding d' used_def .
    subgoal using dist unfolding d' pend_def .
    done
qed

lemma restore_w_crash:
  "restoreGenerations e0 (w_crash ls) =
    (w_crash ls, Inr (Some [g_stored\<lparr>images := [''blob:x'', []],
        inputImages := Some [\<lparr>img_id = ''att-1'', img_name = ''ref.png'', url = [],
                                 img_width = 10, img_height = 10\<rparr>]\<rparr>]))"
  by (simp add: restoreGenerations_def getItem_def e0_def w_crash_def GENERATIONS_KEY_def
      restore_generation_def restore_image_def restore_input_def g_stored_def isRef_def startsWith_def
      getRefKey_def inputs_or_empty_def)

lemma loadPending_w_crash: "loadPending e0 (w_crash ls) = Inr [g_pending, g_clash]"
  by (simp add: loadPending_def getItem_def e0_def w_crash_def PENDING_KEY_def
      load_pending_generation_def g_pending_def g_clash_def inputs_or_empty_def)

lemma restoreFavorites_w_crash:
  "map_of ls FAVORITES_KEY = None \<Longrightarrow> restoreFavorites e0 (w_crash ls) = (w_crash ls, Inr [])"
  by (simp add: restoreFavorites_def getItem_def e0_def w_crash_def FAVORITES_KEY_def
      legacy_favorites_def new_Set_def)

lemma load_crash_no_keys: "loadState e0 (w_crash []) initial_page = (w_crash [], p_crash [])"
proof -
  have w: "has_window (w_crash [])" "localStorage (w_crash []) = []" by (simp_all add: w_crash_def)
  show ?thesis
    unfolding loadState_def Let_def
    by (simp add: w restore_w_crash loadPending_w_crash restoreFavorites_w_crash stored_key_def
        initial_page_def p_crash_def with_outputFormat_def g_pending_def g_clash_def g_stored_def
        defaultOutputFormat_def)
qed

lemma load_crash_key:
  "loadState e0 (w_crash [(''seedream:gemini_api_key'', ''k-123'')]) initial_page
     = (w_crash [(''seedream:gemini_api_key'', ''k-123'')], p_crash ''k-123'')"
proof -
  have w: "has_window (w_crash [(''seedream:gemini_api_key'', ''k-123'')])"
    "localStorage (w_crash [(''seedream:gemini_api_key'', ''k-123'')]) = [(''seedream:gemini_api_key'', ''k-123'')]"
    by (simp_all add: w_crash_def)
  have f: "map_of [(''seedream:gemini_api_key'', ''k-123'')] FAVORITES_KEY = None"
    by (simp add: FAVORITES_KEY_def)
  show ?thesis
    unfolding loadState_def Let_def
    by (simp add: w restore_w_crash loadPending_w_crash restoreFavorites_w_crash [OF f] stored_key_def
        initial_page_def p_crash_def with_outputFormat_def g_pending_def g_clash_def g_stored_def
        defaultOutputFormat_def)
qed

theorem recovery_without_credentials_witness:
  "loadState e0 (w_crash []) initial_page = (w_crash [], p_crash []) \<and>
   recovery_due (p_crash []) \<and> no_keys (p_crash []) \<and>
   (\<exists>w' p'. pending_reconciliation rnd0 (w_crash []) (p_crash []) = (w', p') \<and>
           pendingGenerations p' = [] \<and>
           map_of (forage w') PENDING_KEY = None \<and>
           generations p' = generations (p_crash []))"
proof -
  have h: "has_window (w_crash [])" "recovery_due (p_crash [])" "no_keys (p_crash [])"
    by (simp_all add: w_crash_def recovery_due_def no_keys_def p_crash_def trim_def)
  from recovery_without_credentials [OF h, of rnd0] load_crash_no_keys h
  show ?thesis by blast
qed

theorem recovery_with_credentials_witness:
  "loadState e0 (w_crash [(''seedream:gemini_api_key'', ''k-123'')]) initial_page
     = (w_crash [(''seedream:gemini_api_key'', ''k-123'')], p_crash ''k-123'') \<and>
   recovery_due (p_crash ''k-123'') \<and> \<not> no_keys (p_crash ''k-123'') \<and>
   (\<exists>p' promoted. pending_reconciliation rnd0 w0 (p_crash ''k-123'') = (w0, p') \<and>
           pendingGenerations p' = [] \<and>
           generations p' = promoted @ generations (p_crash ''k-123'') \<and>
           length promoted = 2 \<and> draws p' = 1 \<and>
           promoted ! 0 = g_pending\<lparr>outputFormat := Some ''png''\<rparr> \<and>
           promoted ! 1 = g_clash\<lparr>gen_id := ''generation-k3x9q20''\<rparr> \<and>
           (\<forall>g \<in> set promoted. gen_id g \<notin> gen_id ` set (generations (p_crash ''k-123''))) \<and>
           distinct (map gen_id promoted))"
proof -
  define p where "p = p_crash ''k-123''"
  have h: "recovery_due p" "\<not> no_keys p"
    by (simp_all add: p_def recovery_due_def no_keys_def p_crash_def trim_def is_space_def)
  have pend: "pendingGenerations p = [g_pending\<lparr>outputFormat := Some ''png''\<rparr>, g_clash]"
    and used: "gen_id ` set (generations p) = {''g1''}" and d0: "draws p = 0"
    by (simp_all add: p_def p_crash_def g_stored_def)
  have c0: "\<not> collides p (g_pending\<lparr>outputFormat := Some ''png''\<rparr>)" and c1: "collides p g_clash"
    by (simp_all add: collides_def p_def p_crash_def g_stored_def g_pending_def g_clash_def)
  have di: "draw_index p 1 = 0" by (simp add: draw_index_def pend d0 c0)
  have r0: "rnd0 0 = ''k3x9q20''" by (simp add: rnd0_def nat_to_string.simps digit_char_def)
  from recovery_with_credentials [OF h, of rnd0 w0]
  obtain p' promoted where run: "pending_reconciliation rnd0 w0 p = (w0, p')"
    and pe: "pendingGenerations p' = []"
    and ge: "generations p' = promoted @ generations p"
    and len: "length promoted = length (pendingGenerations p)"
    and dr: "draws p' = draws p + length (filter (collides p) (pendingGenerations p))"
    and each: "\<forall>i < length (pendingGenerations p).
              promoted ! i = (pendingGenerations p ! i)\<lparr>gen_id := gen_id (promoted ! i)\<rparr> \<and>
              (gen_id (pendingGenerations p ! i) \<notin> gen_id ` set (generations p) \<longrightarrow>
                 promoted ! i = pendingGenerations p ! i) \<and>
              (gen_id (pendingGenerations p ! i) \<in> gen_id ` set (generations p) \<longrightarrow>
                 gen_id (promoted ! i) = ''generation-'' @ rnd0 (draw_index p i))"
    and clear: "(\<forall>k. draws p \<le> k \<and> k < draws p' \<longrightarrow>
                 ''generation-'' @ rnd0 k \<notin> gen_id ` set (generations p))
              \<longrightarrow> (\<forall>g \<in> set promoted. gen_id g \<notin> gen_id ` set (generations p))"
    and dist: "(\<forall>k. draws p \<le> k \<and> k < draws p' \<longrightarrow>
                 ''generation-'' @ rnd0 k \<notin> gen_id ` set (pendingGenerations p)) \<and>
            inj_on rnd0 {draws p ..< draws p'} \<and> distinct (map gen_id (pendingGenerations p))
              \<longrightarrow> distinct (map gen_id promoted)"
    by blast
  have l2: "length promoted = 2" using len by (simp add: pend)
  have d1: "draws p' = 1" using dr by (simp add: pend d0 c0 c1)
  have a: "promoted ! 0 = g_pending\<lparr>outputFormat := Some ''png''\<rparr>"
    using each [rule_format, of 0] by (simp add: pend used g_pending_def)
  have gc: "gen_id g_clash = ''g1''" by (simp add: g_clash_def)
  have i1: "1 < length (pendingGenerations p)" and p1: "pendingGenerations p ! 1 = g_clash"
    by (simp_all add: pend)
  have in1: "gen_id (pendingGenerations p ! 1) \<in> gen_id ` set (generations p)"
    unfolding p1 by (simp add: used gc)
  note f = each [rule_format, OF i1]
  have e: "promoted ! 1 = g_clash\<lparr>gen_id := gen_id (promoted ! 1)\<rparr>"
    "gen_id (promoted ! 1) = ''generation-'' @ rnd0 (draw_index p 1)"
    using conjunct1 [OF f] conjunct2 [OF conjunct2 [OF f], THEN mp, OF in1] unfolding p1 by blast+
  have g: "gen_id (promoted ! 1) = ''generation-k3x9q20''" using e(2) unfolding di r0 by simp
  have b: "promoted ! 1 = g_clash\<lparr>gen_id := ''generation-k3x9q20''\<rparr>"
    using e(1) unfolding g .
  have k0: "\<And>k. draws p \<le> k \<and> k < draws p' \<Longrightarrow> k = 0" by (simp add: d0 d1)
  have c: "\<forall>g \<in> set promoted. gen_id g \<notin> gen_id ` set (generations p)"
  proof (rule clear [THEN mp], intro allI impI)
    fix k assume "draws p \<le> k \<and> k < draws p'"
    then have "k = 0" by (rule k0)
    then show "''generation-'' @ rnd0 k \<notin> gen_id ` set (generations p)" by (simp add: used r0)
  qed
  have "distinct (map gen_id promoted)"
  proof (rule dist [THEN mp], intro conjI allI impI)
    fix k assume "draws p \<le> k \<and> k < draws p'"
    then have "k = 0" by (rule k0)
    then show "''generation-'' @ rnd0 k \<notin> gen_id ` set (pendingGenerations p)"
      by (simp add: pend r0 g_pending_def g_clash_def)
  next
    show "inj_on rnd0 {draws p ..< draws p'}" by (simp add: d0 d1)
    show "distinct (map gen_id (pendingGenerations p))" by (simp add: pend g_pending_def g_clash_def)
  qed
  then show ?thesis using load_crash_key h run pe ge l2 d1 a b c unfolding p_def by blast
qed

text \<open>
  C5, as stated, fails for the minted id: with the ids \<open>g1\<close> and \<open>generation-x\<close> in the
  completed list, a pending record with the id \<open>g1\<close> and a random draw that reads \<open>x\<close>,
  the record is promoted under the id \<open>generation-x\<close>, which a completed record already
  has.
\<close>

theorem recovery_minted_id_in_use_counterexample:
  "recovery_due p_reused \<and> \<not> no_keys p_reused \<and>
   map gen_id (generations p_reused) = [''g1'', ''generation-x''] \<and>
   map gen_id (pendingGenerations p_reused) = [''g1''] \<and>
   map gen_id (generations (snd (pending_reconciliation rnd_x w0 p_reused)))
     = [''generation-x'', ''g1'', ''generation-x''] \<and>
   pendingGenerations (snd (pending_reconciliation rnd_x w0 p_reused)) = []"
  by (simp add: p_reused_def p_crash_def recovery_due_def no_keys_def trim_def is_space_def
      pending_reconciliation_def new_Set_def Set_add_def Set_has_def createId_def rnd_x_def
      g_stored_def g_old_def g_clash_def)

subsection \<open>Remote upsert\<close>

lemma upsert_row_ids: "row_id ` set (upsert_row r t) = insert (row_id r) (row_id ` set t)"
  by (induction t) auto

lemma upsert_row_distinct: "distinct (map row_id t) \<Longrightarrow> distinct (map row_id (upsert_row r t))"
proof (induction t)
  case Nil
  then show ?case by simp
next
  case (Cons x t)
  then show ?case using upsert_row_ids [of r t] by (auto simp: image_iff)
qed

lemma upsert_row_from: "x \<in> set (upsert_row r t) \<Longrightarrow> x = r \<or> x \<in> set t"
  by (induction t) (auto split: if_splits)

lemma upsert_row_replaces:
  "distinct (map row_id t) \<Longrightarrow> x \<in> set (upsert_row r t) \<Longrightarrow> row_id x = row_id r \<Longrightarrow> x = r"
proof (induction t)
  case Nil
  then show ?case by simp
next
  case (Cons y t)
  show ?case
  proof (cases "row_id y = row_id r")
    case True
    with Cons.prems have "x = r \<or> x \<in> set t" by simp
    moreover have "row_id r \<notin> row_id ` set t" using Cons.prems(1) True by auto
    ultimately show ?thesis using Cons.prems(3) by (metis imageI)
  next
    case False
    with Cons show ?thesis by auto
  qed
qed

lemma upsert_rows_ids: "row_id ` set (upsert_rows rows t) = row_id ` set rows \<union> row_id ` set t"
  unfolding upsert_rows_def
  by (induction rows arbitrary: t) (auto simp: upsert_row_ids)

lemma upsert_rows_distinct:
  "distinct (map row_id t) \<Longrightarrow> distinct (map row_id (upsert_rows rows t))"
  unfolding upsert_rows_def
  by (induction rows arbitrary: t) (auto simp: upsert_row_distinct)

lemma upsert_rows_from: "x \<in> set (upsert_rows rows t) \<Longrightarrow> x \<in> set rows \<or> x \<in> set t"
  unfolding upsert_rows_def
  by (induction rows arbitrary: t) (auto dest: upsert_row_from)

lemma upsert_rows_replaces:
  "distinct (map row_id t) \<Longrightarrow> x \<in> set (upsert_rows rows t) \<Longrightarrow>
   row_id x \<in> row_id ` set rows \<Longrightarrow> x \<in> set rows"
  unfolding upsert_rows_def
proof (induction rows arbitrary: t)
  case Nil
  then show ?case by simp
next
  case (Cons r rows)
  have d: "distinct (map row_id (upsert_row r t))" using Cons.prems(1) by (rule upsert_row_distinct)
  have x: "x \<in> set (fold upsert_row rows (upsert_row r t))" using Cons.prems(2) by simp
  show ?case
  proof (cases "row_id x \<in> row_id ` set rows")
    case True
    from Cons.IH [OF d x True] show ?thesis by simp
  next
    case False
    with Cons.prems(3) have id: "row_id x = row_id r" by auto
    from x have "x \<in> set rows \<or> x \<in> set (upsert_row r t)"
      using upsert_rows_from [of x rows "upsert_row r t"] by (simp add: upsert_rows_def)
    then show ?thesis using upsert_row_replaces [OF Cons.prems(1) _ id] by auto
  qed
qed

lemma one_row:
  assumes "distinct (map row_id t)" and "i \<in> row_id ` set t"
  shows "\<exists>r. filter (\<lambda>x. row_id x = i) t = [r]"
  using assms
proof (induction t)
  case Nil
  then show ?case by simp
next
  case (Cons y t)
  show ?case
  proof (cases "row_id y = i")
    case True
    then have "i \<notin> row_id ` set t" using Cons.prems(1) by auto
    then have "filter (\<lambda>x. row_id x = i) t = []" by (auto simp: filter_empty_conv)
    with True show ?thesis by simp
  next
    case False
    with Cons show ?thesis by auto
  qed
qed

lemma save_success:
  assumes "saveGenerationsWithImages n c batch up = (c1, Inr ())"
  shows "\<exists>uid. session_user c = Some uid \<and> session_user c1 = Some uid \<and>
     generations_table c1 =
       upsert_rows (map (\<lambda>gen. toDbFormat (processed n up gen) uid) batch) (generations_table c)"
  using assms
  by (auto simp: saveGenerationsWithImages_def Let_def send_def processed_def comp_def
      split: option.splits if_splits)

text \<open>
  C8. When a record id is uploaded twice through \<open>saveGenerationsWithImages\<close> (two
  successful calls whose batches both contain the id) into a table that has at most one
  row per id, the table has exactly one row with that id after the first call and
  exactly one after the second, and that row is the one written by the second call.
\<close>

theorem upload_twice_one_row:
  assumes pk: "distinct (map row_id (generations_table c))"
    and first: "saveGenerationsWithImages n c batch up = (c1, Inr ())"
    and second: "saveGenerationsWithImages n' c1 batch' up' = (c2, Inr ())"
    and g: "g \<in> set batch" and g': "g' \<in> set batch'" and same: "gen_id g' = gen_id g"
  shows "\<exists>r h. filter (\<lambda>x. row_id x = gen_id g) (generations_table c2) = [r] \<and>
           h \<in> set batch' \<and> gen_id h = gen_id g \<and> row_prompt r = prompt h \<and>
           length (filter (\<lambda>x. row_id x = gen_id g) (generations_table c1)) = 1"
proof -
  from save_success [OF first] obtain uid where
    t1: "generations_table c1 =
       upsert_rows (map (\<lambda>gen. toDbFormat (processed n up gen) uid) batch) (generations_table c)"
    by blast
  from save_success [OF second] obtain uid' where
    t2: "generations_table c2 =
       upsert_rows (map (\<lambda>gen. toDbFormat (processed n' up' gen) uid') batch') (generations_table c1)"
    by blast
  let ?rows = "map (\<lambda>gen. toDbFormat (processed n up gen) uid) batch"
  let ?rows' = "map (\<lambda>gen. toDbFormat (processed n' up' gen) uid') batch'"
  have id: "row_id (toDbFormat (processed m u gen) v) = gen_id gen" for m u gen v
    by (simp add: toDbFormat_def processed_def)
  have pr: "row_prompt (toDbFormat (processed m u gen) v) = prompt gen" for m u gen v
    by (simp add: toDbFormat_def processed_def)
  have d1: "distinct (map row_id (generations_table c1))"
    unfolding t1 using pk by (rule upsert_rows_distinct)
  have d2: "distinct (map row_id (generations_table c2))"
    unfolding t2 using d1 by (rule upsert_rows_distinct)
  have ids: "row_id ` set (map (\<lambda>gen. toDbFormat (processed m u gen) v) b) = gen_id ` set b" for m u v b
    by (simp add: image_image id)
  have in1: "gen_id g \<in> row_id ` set (generations_table c1)"
    unfolding t1 upsert_rows_ids ids using g by simp
  have inr: "gen_id g \<in> row_id ` set ?rows'"
    unfolding ids using g' same by (metis imageI)
  then have in2: "gen_id g \<in> row_id ` set (generations_table c2)"
    unfolding t2 upsert_rows_ids by simp
  from one_row [OF d1 in1] have c1: "length (filter (\<lambda>x. row_id x = gen_id g) (generations_table c1)) = 1"
    by auto
  from one_row [OF d2 in2] obtain r where r: "filter (\<lambda>x. row_id x = gen_id g) (generations_table c2) = [r]"
    by blast
  then have "r \<in> set (filter (\<lambda>x. row_id x = gen_id g) (generations_table c2))" by simp
  then have rin: "r \<in> set (generations_table c2)" and rid: "row_id r = gen_id g" by simp_all
  have "r \<in> set ?rows'"
    using upsert_rows_replaces [OF d1, of r ?rows'] rin rid inr unfolding t2 by simp
  then obtain h where h: "h \<in> set batch'" "r = toDbFormat (processed n' up' h) uid'" by auto
  with rid id pr have "gen_id h = gen_id g" "row_prompt r = prompt h" by simp_all
  with r h(1) c1 show ?thesis by blast
qed

lemma save_accepted:
  "session_user c = Some uid \<Longrightarrow> (\<And>r. accepts n r) \<Longrightarrow>
   snd (saveGenerationsWithImages n c b up) = Inr () \<and>
   session_user (fst (saveGenerationsWithImages n c b up)) = Some uid"
  by (simp add: saveGenerationsWithImages_def Let_def send_def)

theorem upload_twice_one_row_witness:
  "\<exists>c1 c2. saveGenerationsWithImages net0 cloud0 [g_fresh] True = (c1, Inr ()) \<and>
           saveGenerationsWithImages net0 c1 [g_fresh] True = (c2, Inr ()) \<and>
           length (filter (\<lambda>x. row_id x = ''g2'') (generations_table c2)) = 1"
proof -
  define c1 where "c1 = fst (saveGenerationsWithImages net0 cloud0 [g_fresh] True)"
  define c2 where "c2 = fst (saveGenerationsWithImages net0 c1 [g_fresh] True)"
  have a: "\<And>r. accepts net0 r" by (simp add: net0_def)
  have u0: "session_user cloud0 = Some ''u1''" by (simp add: cloud0_def)
  have first: "saveGenerationsWithImages net0 cloud0 [g_fresh] True = (c1, Inr ())"
    using save_accepted [OF u0 a, of "[g_fresh]" True] unfolding c1_def
    by (metis prod.collapse)
  have u1: "session_user c1 = Some ''u1''"
    using save_accepted [OF u0 a, of "[g_fresh]" True] unfolding c1_def by simp
  have second: "saveGenerationsWithImages net0 c1 [g_fresh] True = (c2, Inr ())"
    using save_accepted [OF u1 a, of "[g_fresh]" True] unfolding c2_def
    by (metis prod.collapse)
  have pk: "distinct (map row_id (generations_table cloud0))" by (simp add: cloud0_def)
  from upload_twice_one_row [OF pk first second, of g_fresh g_fresh]
  obtain r where "filter (\<lambda>x. row_id x = gen_id g_fresh) (generations_table c2) = [r]" by auto
  then have "length (filter (\<lambda>x. row_id x = ''g2'') (generations_table c2)) = 1"
    by (simp add: g_fresh_def)
  with first second show ?thesis by blast
qed

subsection \<open>Debounced sync\<close>

lemma newGenerations_delta:
  "newGenerations s gens =
     filter (\<lambda>g. gen_id g \<notin> set (parse_or_empty (lastSyncedGenerationsRef s))) gens"
  by (simp add: newGenerations_def Let_def Set_has_def set_new_Set)

lemma upsert_row_other:
  "i \<noteq> row_id r \<Longrightarrow> filter (\<lambda>x. row_id x = i) (upsert_row r t) = filter (\<lambda>x. row_id x = i) t"
  by (induction t) auto

lemma upsert_rows_other:
  "i \<notin> row_id ` set rows \<Longrightarrow>
   filter (\<lambda>x. row_id x = i) (upsert_rows rows t) = filter (\<lambda>x. row_id x = i) t"
  unfolding upsert_rows_def
  by (induction rows arbitrary: t) (auto simp: upsert_row_other)

lemma delta_rows_ids: "map row_id (delta_rows n s uid gens) = map gen_id (newGenerations s gens)"
  by (simp add: delta_rows_def toDbFormat_def processed_def comp_def)

lemma delta_rows_vps_ids: "map api_id (delta_rows_vps v s gens) = map gen_id (newGenerations s gens)"
  by (simp add: delta_rows_vps_def toApiFormat_def processed_vps_def comp_def)

lemma pending_delta_key:
  assumes "newGenerations s gens \<noteq> []"
  shows "currentGenerationsKey gens \<noteq> lastSyncedGenerationsRef s"
proof
  assume "currentGenerationsKey gens = lastSyncedGenerationsRef s"
  then have "set (parse_or_empty (lastSyncedGenerationsRef s)) = gen_id ` set gens"
    by (simp add: currentGenerationsKey_def parse_or_empty_def [of "Some (sort (map gen_id gens))"]
        flip: \<open>currentGenerationsKey gens = lastSyncedGenerationsRef s\<close>)
  then have "newGenerations s gens = []"
    by (simp add: newGenerations_delta)
  with assms show False by simp
qed

lemma in_progress_delta:
  "newGenerations (s\<lparr>syncInProgressRef := b\<rparr>) gens = newGenerations s gens"
  "delta_rows n (s\<lparr>syncInProgressRef := b\<rparr>) uid gens = delta_rows n s uid gens"
  "delta_rows_vps v (s\<lparr>syncInProgressRef := b\<rparr>) gens = delta_rows_vps v s gens"
  by (simp_all add: newGenerations_def delta_rows_def delta_rows_vps_def)

lemma save_delta:
  assumes "session_user c = Some uid"
  shows "saveGenerationsWithImages n c (newGenerations s gens) (syncImages s) =
     (if accepts n (UpsertGenerations (delta_rows n s uid gens))
      then ((send c (UpsertGenerations (delta_rows n s uid gens)))
              \<lparr>generations_table := upsert_rows (delta_rows n s uid gens) (generations_table c)\<rparr>, Inr ())
      else (send c (UpsertGenerations (delta_rows n s uid gens)), Inl RemoteError))"
  using assms
  by (simp add: saveGenerationsWithImages_def Let_def delta_rows_def processed_def send_def comp_def)

lemma save_delta_vps:
  "saveGenerationsWithImages_vps v sent (newGenerations s gens) (syncImages s) =
     (sent @ [BulkUpsertGenerations (delta_rows_vps v s gens)],
      if response_ok v (BulkUpsertGenerations (delta_rows_vps v s gens)) then Inr () else Inl RemoteError)"
  by (simp add: saveGenerationsWithImages_vps_def saveGenerationsToCloud_vps_def Let_def
      delta_rows_vps_def processed_vps_def comp_def)

lemma syncGenerations_firing:
  assumes u: "session_user c = Some uid"
  shows "\<exists>c' s'. syncGenerations (saveGenerationsWithImages n) c s gens = (c', s') \<and>
     session_user c' = Some uid \<and>
     requests c' = requests c @
        (if newGenerations s gens = [] then [] else [UpsertGenerations (delta_rows n s uid gens)]) \<and>
     (\<forall>i \<in> set (parse_or_empty (lastSyncedGenerationsRef s)).
        filter (\<lambda>x. row_id x = i) (generations_table c') = filter (\<lambda>x. row_id x = i) (generations_table c)) \<and>
     (if newGenerations s gens = [] \<or> accepts n (UpsertGenerations (delta_rows n s uid gens))
      then s' = s\<lparr>lastSyncedGenerationsRef := currentGenerationsKey gens, syncInProgressRef := False\<rparr>
      else s' = s\<lparr>syncInProgressRef := False\<rparr> \<and> generations_table c' = generations_table c)"
proof -
  have other: "\<forall>i \<in> set (parse_or_empty (lastSyncedGenerationsRef s)).
      filter (\<lambda>x. row_id x = i) (upsert_rows (delta_rows n s uid gens) (generations_table c))
        = filter (\<lambda>x. row_id x = i) (generations_table c)"
  proof
    fix i assume i: "i \<in> set (parse_or_empty (lastSyncedGenerationsRef s))"
    have "i \<notin> set (map row_id (delta_rows n s uid gens))"
      unfolding delta_rows_ids newGenerations_delta using i by auto
    then show "filter (\<lambda>x. row_id x = i) (upsert_rows (delta_rows n s uid gens) (generations_table c))
        = filter (\<lambda>x. row_id x = i) (generations_table c)"
      by (intro upsert_rows_other) simp
  qed
  show ?thesis
  proof (cases "newGenerations s gens = []")
    case True
    then show ?thesis using u by (simp add: syncGenerations_def)
  next
    case False
    then show ?thesis
      using other u by (simp add: syncGenerations_def save_delta [OF u] send_def)
  qed
qed

lemma syncGenerations_supabase:
  assumes u: "session_user c = Some uid"
  shows "\<exists>c' s'. syncGenerations (saveGenerationsWithImages n) c s gens = (c', s') \<and>
     requests c' = requests c @
        (if newGenerations s gens = [] then [] else [UpsertGenerations (delta_rows n s uid gens)]) \<and>
     (\<forall>i \<in> set (parse_or_empty (lastSyncedGenerationsRef s)).
        filter (\<lambda>x. row_id x = i) (generations_table c') = filter (\<lambda>x. row_id x = i) (generations_table c)) \<and>
     (if newGenerations s gens = [] \<or> accepts n (UpsertGenerations (delta_rows n s uid gens))
      then s' = s\<lparr>lastSyncedGenerationsRef := currentGenerationsKey gens, syncInProgressRef := False\<rparr>
      else s' = s\<lparr>syncInProgressRef := False\<rparr> \<and>
           lastSyncedGenerationsRef s' = lastSyncedGenerationsRef s \<and>
           generations_table c' = generations_table c \<and>
           (initialSyncDoneRef s \<longrightarrow> generations_sync_armed (Some uid) s' gens) \<and>
           requests (fst (syncGenerations (saveGenerationsWithImages n) c' s' gens)) =
             requests c' @ [UpsertGenerations (delta_rows n s uid gens)])"
proof -
  from syncGenerations_firing [OF u, of n s gens] obtain c' s' where
    run: "syncGenerations (saveGenerationsWithImages n) c s gens = (c', s')"
    and u': "session_user c' = Some uid"
    and req: "requests c' = requests c @
        (if newGenerations s gens = [] then [] else [UpsertGenerations (delta_rows n s uid gens)])"
    and other: "\<forall>i \<in> set (parse_or_empty (lastSyncedGenerationsRef s)).
        filter (\<lambda>x. row_id x = i) (generations_table c') = filter (\<lambda>x. row_id x = i) (generations_table c)"
    and adv: "if newGenerations s gens = [] \<or> accepts n (UpsertGenerations (delta_rows n s uid gens))
      then s' = s\<lparr>lastSyncedGenerationsRef := currentGenerationsKey gens, syncInProgressRef := False\<rparr>
      else s' = s\<lparr>syncInProgressRef := False\<rparr> \<and> generations_table c' = generations_table c"
    by blast
  show ?thesis
  proof (cases "newGenerations s gens = [] \<or> accepts n (UpsertGenerations (delta_rows n s uid gens))")
    case True
    then show ?thesis using run req other adv by simp
  next
    case False
    then have d: "newGenerations s gens \<noteq> []" and s': "s' = s\<lparr>syncInProgressRef := False\<rparr>"
      and t: "generations_table c' = generations_table c" using adv by simp_all
    have armed: "initialSyncDoneRef s \<longrightarrow> generations_sync_armed (Some uid) s' gens"
      using pending_delta_key [OF d] by (simp add: generations_sync_armed_def s')
    from syncGenerations_firing [OF u', of n s' gens] obtain c'' s'' where
      "syncGenerations (saveGenerationsWithImages n) c' s' gens = (c'', s'')"
      "requests c'' = requests c' @
        (if newGenerations s' gens = [] then [] else [UpsertGenerations (delta_rows n s' uid gens)])"
      by blast
    then have again: "requests (fst (syncGenerations (saveGenerationsWithImages n) c' s' gens)) =
             requests c' @ [UpsertGenerations (delta_rows n s uid gens)]"
      using d by (simp add: s' in_progress_delta)
    show ?thesis using False run req other s' t armed again
      by (intro exI [of _ c'] exI [of _ s']) simp
  qed
qed

lemma syncGenerations_firing_vps:
  "syncGenerations (saveGenerationsWithImages_vps v) sent s gens =
     (sent @ (if newGenerations s gens = [] then [] else [BulkUpsertGenerations (delta_rows_vps v s gens)]),
      if newGenerations s gens = [] \<or> response_ok v (BulkUpsertGenerations (delta_rows_vps v s gens))
      then s\<lparr>lastSyncedGenerationsRef := currentGenerationsKey gens, syncInProgressRef := False\<rparr>
      else s\<lparr>syncInProgressRef := False\<rparr>)"
  by (simp add: syncGenerations_def save_delta_vps)

lemma syncGenerations_vps:
  "\<exists>sent' s'. syncGenerations (saveGenerationsWithImages_vps v) sent s gens = (sent', s') \<and>
     sent' = sent @
        (if newGenerations s gens = [] then [] else [BulkUpsertGenerations (delta_rows_vps v s gens)]) \<and>
     (if newGenerations s gens = [] \<or> response_ok v (BulkUpsertGenerations (delta_rows_vps v s gens))
      then s' = s\<lparr>lastSyncedGenerationsRef := currentGenerationsKey gens, syncInProgressRef := False\<rparr>
      else s' = s\<lparr>syncInProgressRef := False\<rparr> \<and>
           lastSyncedGenerationsRef s' = lastSyncedGenerationsRef s \<and>
           (initialSyncDoneRef s \<longrightarrow> generations_sync_armed (Some uid) s' gens) \<and>
           fst (syncGenerations (saveGenerationsWithImages_vps v) sent' s' gens) =
             sent' @ [BulkUpsertGenerations (delta_rows_vps v s gens)])"
proof (cases "newGenerations s gens = [] \<or> response_ok v (BulkUpsertGenerations (delta_rows_vps v s gens))")
  case True
  then show ?thesis by (auto simp: syncGenerations_firing_vps)
next
  case False
  then have d: "newGenerations s gens \<noteq> []" by simp
  have armed: "initialSyncDoneRef s \<longrightarrow> generations_sync_armed (Some uid) (s\<lparr>syncInProgressRef := False\<rparr>) gens"
    using pending_delta_key [OF d] by (simp add: generations_sync_armed_def)
  show ?thesis using False armed
    by (simp add: syncGenerations_firing_vps in_progress_delta)
qed

lemma favorite_rows_fields:
  "map (\<lambda>r. (fav_user_id r, fav_generation_id r, fav_image_index r)) (favorite_rows uid favs) =
     map (\<lambda>fav. (uid, favorite_fields fav)) favs"
  by (simp add: favorite_rows_def comp_def)

lemma saveFavorites_supabase:
  assumes u: "session_user c = Some uid"
  shows "saveFavoritesToCloud n c favs =
    (c\<lparr>requests := requests c @ DeleteFavorites uid #
                      (if favs = [] then [] else [InsertFavorites (favorite_rows uid favs)]),
       favorites_table :=
         (if accepts n (DeleteFavorites uid)
          then filter (\<lambda>r. fav_user_id r \<noteq> uid) (favorites_table c) else favorites_table c) @
         (if favs \<noteq> [] \<and> insert_ok n (favorite_rows uid favs) then favorite_rows uid favs else [])\<rparr>,
     if favs = [] \<or> insert_ok n (favorite_rows uid favs) then Inr () else Inl RemoteError)"
  using u
  by (cases "favs = []")
     (simp_all add: saveFavoritesToCloud_def Let_def Array_from_def send_def favorite_rows_def)

lemma fst_syncFavorites: "fst (syncFavorites save c s favs) = fst (save c favs)"
  by (simp add: syncFavorites_def split: prod.splits sum.splits)

lemma syncFavorites_supabase:
  assumes u: "session_user c = Some uid"
  shows "\<exists>c' s'. syncFavorites (saveFavoritesToCloud n) c s favs = (c', s') \<and>
     requests c' = requests c @ DeleteFavorites uid #
        (if favs = [] then [] else [InsertFavorites (favorite_rows uid favs)]) \<and>
     map (\<lambda>r. (fav_user_id r, fav_generation_id r, fav_image_index r)) (favorite_rows uid favs) =
        map (\<lambda>fav. (uid, favorite_fields fav)) favs \<and>
     favorites_table c' =
        (if accepts n (DeleteFavorites uid)
         then filter (\<lambda>r. fav_user_id r \<noteq> uid) (favorites_table c) else favorites_table c) @
        (if favs \<noteq> [] \<and> insert_ok n (favorite_rows uid favs) then favorite_rows uid favs else []) \<and>
     (if favs = [] \<or> insert_ok n (favorite_rows uid favs)
      then s' = s\<lparr>lastSyncedFavoritesRef := currentFavoritesKey favs\<rparr>
      else s' = s \<and>
           (favorites_sync_armed (Some uid) s favs \<longrightarrow> favorites_sync_armed (Some uid) s' favs) \<and>
           requests (fst (syncFavorites (saveFavoritesToCloud n) c' s' favs)) =
             requests c' @ [DeleteFavorites uid, InsertFavorites (favorite_rows uid favs)])"
proof -
  obtain c' r where sv: "saveFavoritesToCloud n c favs = (c', r)"
    by (cases "saveFavoritesToCloud n c favs")
  from sv have c': "c' = c\<lparr>requests := requests c @ DeleteFavorites uid #
                      (if favs = [] then [] else [InsertFavorites (favorite_rows uid favs)]),
       favorites_table :=
         (if accepts n (DeleteFavorites uid)
          then filter (\<lambda>r. fav_user_id r \<noteq> uid) (favorites_table c) else favorites_table c) @
         (if favs \<noteq> [] \<and> insert_ok n (favorite_rows uid favs) then favorite_rows uid favs else [])\<rparr>"
    and r: "r = (if favs = [] \<or> insert_ok n (favorite_rows uid favs) then Inr () else Inl RemoteError)"
    unfolding saveFavorites_supabase [OF u] by simp_all
  have u': "session_user c' = Some uid" using u by (simp add: c')
  have req: "requests c' = requests c @ DeleteFavorites uid #
        (if favs = [] then [] else [InsertFavorites (favorite_rows uid favs)])"
    by (simp add: c')
  have tab: "favorites_table c' =
        (if accepts n (DeleteFavorites uid)
         then filter (\<lambda>r. fav_user_id r \<noteq> uid) (favorites_table c) else favorites_table c) @
        (if favs \<noteq> [] \<and> insert_ok n (favorite_rows uid favs) then favorite_rows uid favs else [])"
    by (simp add: c')
  show ?thesis
  proof (cases "favs = [] \<or> insert_ok n (favorite_rows uid favs)")
    case True
    then have "syncFavorites (saveFavoritesToCloud n) c s favs =
        (c', s\<lparr>lastSyncedFavoritesRef := currentFavoritesKey favs\<rparr>)"
      using sv r by (simp add: syncFavorites_def)
    then show ?thesis using True req tab favorite_rows_fields [of uid favs]
      by (intro exI [of _ c'] exI [of _ "s\<lparr>lastSyncedFavoritesRef := currentFavoritesKey favs\<rparr>"]) simp
  next
    case False
    then have ne: "favs \<noteq> []" by simp
    have run: "syncFavorites (saveFavoritesToCloud n) c s favs = (c', s)"
      using sv r False by (simp add: syncFavorites_def)
    have again: "requests (fst (syncFavorites (saveFavoritesToCloud n) c' s favs)) =
             requests c' @ [DeleteFavorites uid, InsertFavorites (favorite_rows uid favs)]"
      using ne by (simp add: fst_syncFavorites saveFavorites_supabase [OF u'])
    show ?thesis using False run req tab again favorite_rows_fields [of uid favs]
      by (intro exI [of _ c'] exI [of _ s]) simp
  qed
qed

lemma saveFavorites_vps:
  "saveFavoritesToCloud_vps v sent favs =
     (sent @ (if favs = [] then [] else [BulkUpsertFavorites (favorites_vps favs)]),
      if favs = [] \<or> response_ok v (BulkUpsertFavorites (favorites_vps favs)) then Inr ()
      else Inl RemoteError)"
  by (simp add: saveFavoritesToCloud_vps_def favorites_vps_def Let_def Array_from_def)

lemma syncFavorites_vps:
  "\<exists>sent' s'. syncFavorites (saveFavoritesToCloud_vps v) sent s favs = (sent', s') \<and>
     sent' = sent @ (if favs = [] then [] else [BulkUpsertFavorites (favorites_vps favs)]) \<and>
     map (\<lambda>r. (generation_id r, image_index r)) (favorites_vps favs) = map favorite_fields favs \<and>
     (if favs = [] \<or> response_ok v (BulkUpsertFavorites (favorites_vps favs))
      then s' = s\<lparr>lastSyncedFavoritesRef := currentFavoritesKey favs\<rparr>
      else s' = s \<and>
           (favorites_sync_armed (Some uid) s favs \<longrightarrow> favorites_sync_armed (Some uid) s' favs) \<and>
           fst (syncFavorites (saveFavoritesToCloud_vps v) sent' s' favs) =
             sent' @ [BulkUpsertFavorites (favorites_vps favs)])"
  by (simp add: syncFavorites_def saveFavorites_vps favorites_vps_def comp_def)

text \<open>
  C7, as amended. After the initial sync, a firing of the record sync uploads exactly the
  records whose ids are not in the last-synced snapshot, in one upsert request (none
  when there is no such record), with either module; in the Supabase store the remote
  rows of every id of the snapshot stay as they were. A firing of the favorites sync
  hands the whole current favorites set to \<open>saveFavoritesToCloud\<close>, which uploads all of
  it and not a delta: the Supabase module sends a delete of the user's rows and then an
  insert of one row per current favorite (the delete alone when the set is empty), the
  VPS module one bulk upsert of all current favorites (no request when the set is
  empty). In the Supabase store the user's rows are replaced by the current set when
  both requests are accepted; a refused delete leaves the old rows in place, the code
  not looking at its result, and a refused insert after an accepted delete leaves the
  user without remote favorites. Each snapshot is advanced to the current ids exactly
  when the firing ends without error. When the upload fails the snapshot is unchanged,
  for records the Supabase table is unchanged, the effect is armed again for the same
  data, and the next firing sends the same upload once more. The hook holds no local
  records or favorites: a firing cannot change them.
\<close>

theorem debounced_sync_uploads:
  assumes u: "session_user c = Some uid"
  shows "newGenerations s gens =
       filter (\<lambda>g. gen_id g \<notin> set (parse_or_empty (lastSyncedGenerationsRef s))) gens \<and>
   map row_id (delta_rows n s uid gens) = map gen_id (newGenerations s gens) \<and>
   map api_id (delta_rows_vps v s gens) = map gen_id (newGenerations s gens) \<and>
   (\<exists>c' s'. syncGenerations (saveGenerationsWithImages n) c s gens = (c', s') \<and>
     requests c' = requests c @
        (if newGenerations s gens = [] then [] else [UpsertGenerations (delta_rows n s uid gens)]) \<and>
     (\<forall>i \<in> set (parse_or_empty (lastSyncedGenerationsRef s)).
        filter (\<lambda>x. row_id x = i) (generations_table c') = filter (\<lambda>x. row_id x = i) (generations_table c)) \<and>
     (if newGenerations s gens = [] \<or> accepts n (UpsertGenerations (delta_rows n s uid gens))
      then s' = s\<lparr>lastSyncedGenerationsRef := currentGenerationsKey gens, syncInProgressRef := False\<rparr>
      else s' = s\<lparr>syncInProgressRef := False\<rparr> \<and>
           lastSyncedGenerationsRef s' = lastSyncedGenerationsRef s \<and>
           generations_table c' = generations_table c \<and>
           (initialSyncDoneRef s \<longrightarrow> generations_sync_armed (Some uid) s' gens) \<and>
           requests (fst (syncGenerations (saveGenerationsWithImages n) c' s' gens)) =
             requests c' @ [UpsertGenerations (delta_rows n s uid gens)])) \<and>
   (\<exists>sent' s'. syncGenerations (saveGenerationsWithImages_vps v) sent s gens = (sent', s') \<and>
     sent' = sent @
        (if newGenerations s gens = [] then [] else [BulkUpsertGenerations (delta_rows_vps v s gens)]) \<and>
     (if newGenerations s gens = [] \<or> response_ok v (BulkUpsertGenerations (delta_rows_vps v s gens))
      then s' = s\<lparr>lastSyncedGenerationsRef := currentGenerationsKey gens, syncInProgressRef := False\<rparr>
      else s' = s\<lparr>syncInProgressRef := False\<rparr> \<and>
           lastSyncedGenerationsRef s' = lastSyncedGenerationsRef s \<and>
           (initialSyncDoneRef s \<longrightarrow> generations_sync_armed (Some uid) s' gens) \<and>
           fst (syncGenerations (saveGenerationsWithImages_vps v) sent' s' gens) =
             sent' @ [BulkUpsertGenerations (delta_rows_vps v s gens)])) \<and>
   (\<exists>c' s'. syncFavorites (saveFavoritesToCloud n) c s favs = (c', s') \<and>
     requests c' = requests c @ DeleteFavorites uid #
        (if favs = [] then [] else [InsertFavorites (favorite_rows uid favs)]) \<and>
     map (\<lambda>r. (fav_user_id r, fav_generation_id r, fav_image_index r)) (favorite_rows uid favs) =
        map (\<lambda>fav. (uid, favorite_fields fav)) favs \<and>
     favorites_table c' =
        (if accepts n (DeleteFavorites uid)
         then filter (\<lambda>r. fav_user_id r \<noteq> uid) (favorites_table c) else favorites_table c) @
        (if favs \<noteq> [] \<and> insert_ok n (favorite_rows uid favs) then favorite_rows uid favs else []) \<and>
     (if favs = [] \<or> insert_ok n (favorite_rows uid favs)
      then s' = s\<lparr>lastSyncedFavoritesRef := currentFavoritesKey favs\<rparr>
      else s' = s \<and>
           (favorites_sync_armed (Some uid) s favs \<longrightarrow> favorites_sync_armed (Some uid) s' favs) \<and>
           requests (fst (syncFavorites (saveFavoritesToCloud n) c' s' favs)) =
             requests c' @ [DeleteFavorites uid, InsertFavorites (favorite_rows uid favs)])) \<and>
   (\<exists>sent' s'. syncFavorites (saveFavoritesToCloud_vps v) sent s favs = (sent', s') \<and>
     sent' = sent @ (if favs = [] then [] else [BulkUpsertFavorites (favorites_vps favs)]) \<and>
     map (\<lambda>r. (generation_id r, image_index r)) (favorites_vps favs) = map favorite_fields favs \<and>
     (if favs = [] \<or> response_ok v (BulkUpsertFavorites (favorites_vps favs))
      then s' = s\<lparr>lastSyncedFavoritesRef := currentFavoritesKey favs\<rparr>
      else s' = s \<and>
           (favorites_sync_armed (Some uid) s favs \<longrightarrow> favorites_sync_armed (Some uid) s' favs) \<and>
           fst (syncFavorites (saveFavoritesToCloud_vps v) sent' s' favs) =
             sent' @ [BulkUpsertFavorites (favorites_vps favs)]))"
  apply (intro conjI)
  subgoal by (rule newGenerations_delta)
  subgoal by (rule delta_rows_ids)
  subgoal by (rule delta_rows_vps_ids)
  subgoal by (rule syncGenerations_supabase [OF u])
  subgoal by (rule syncGenerations_vps)
  subgoal by (rule syncFavorites_supabase [OF u])
  subgoal by (rule syncFavorites_vps)
  done

lemma new_g_fresh: "newGenerations s_synced [g_fresh, g1] = [g_fresh]"
  by (simp add: newGenerations_delta s_synced_def initial_sync_def parse_or_empty_def g_fresh_def g1_def)

theorem debounced_sync_uploads_witness:
  "newGenerations s_synced [g_fresh, g1] = [g_fresh] \<and>
   map row_id (delta_rows net0 s_synced ''u1'' [g_fresh, g1]) = [''g2''] \<and>
   map api_id (delta_rows_vps vps_down s_synced [g_fresh, g1]) = [''g2''] \<and>
   (\<exists>c' s'. syncGenerations (saveGenerationsWithImages net0) cloud0 s_synced [g_fresh, g1] = (c', s') \<and>
      requests c' = [UpsertGenerations (delta_rows net0 s_synced ''u1'' [g_fresh, g1])] \<and>
      lastSyncedGenerationsRef s' = currentGenerationsKey [g_fresh, g1]) \<and>
   (\<exists>sent' s'. syncGenerations (saveGenerationsWithImages_vps vps_down) [] s_synced [g_fresh, g1] = (sent', s') \<and>
      sent' = [BulkUpsertGenerations (delta_rows_vps vps_down s_synced [g_fresh, g1])] \<and>
      lastSyncedGenerationsRef s' = Some [''g1''] \<and>
      generations_sync_armed (Some ''u1'') s' [g_fresh, g1] \<and>
      fst (syncGenerations (saveGenerationsWithImages_vps vps_down) sent' s' [g_fresh, g1]) =
        [BulkUpsertGenerations (delta_rows_vps vps_down s_synced [g_fresh, g1]),
         BulkUpsertGenerations (delta_rows_vps vps_down s_synced [g_fresh, g1])]) \<and>
   (\<exists>c' s'. syncFavorites (saveFavoritesToCloud net0) cloud0 s_synced [] = (c', s') \<and>
      requests c' = [DeleteFavorites ''u1''] \<and> favorites_table c' = [] \<and>
      lastSyncedFavoritesRef s' = currentFavoritesKey []) \<and>
   (\<exists>sent' s'. syncFavorites (saveFavoritesToCloud_vps vps_down) [] s_synced [] = (sent', s') \<and>
      sent' = [] \<and> lastSyncedFavoritesRef s' = currentFavoritesKey [])"
proof -
  have u: "session_user cloud0 = Some ''u1''" by (simp add: cloud0_def)
  note t = debounced_sync_uploads [OF u, of s_synced "[g_fresh, g1]" net0 vps_down "[]" "[]"]
  have gid: "gen_id g_fresh = ''g2''" by (simp add: g_fresh_def)
  have ok: "accepts net0 r" for r by (simp add: net0_def)
  have down: "\<not> response_ok vps_down r" for r by (simp add: vps_down_def vps0_def)
  have ls: "lastSyncedGenerationsRef s_synced = Some [''g1'']" "initialSyncDoneRef s_synced"
    by (simp_all add: s_synced_def initial_sync_def)
  have c0: "requests cloud0 = []" "favorites_table cloud0 = []" by (simp_all add: cloud0_def)
  have 1: "map row_id (delta_rows net0 s_synced ''u1'' [g_fresh, g1]) = [''g2'']"
    using t [THEN conjunct2, THEN conjunct1] by (simp add: new_g_fresh gid)
  have 2: "map api_id (delta_rows_vps vps_down s_synced [g_fresh, g1]) = [''g2'']"
    using t [THEN conjunct2, THEN conjunct2, THEN conjunct1] by (simp add: new_g_fresh gid)
  have 3: "\<exists>c' s'. syncGenerations (saveGenerationsWithImages net0) cloud0 s_synced [g_fresh, g1] = (c', s') \<and>
      requests c' = [UpsertGenerations (delta_rows net0 s_synced ''u1'' [g_fresh, g1])] \<and>
      lastSyncedGenerationsRef s' = currentGenerationsKey [g_fresh, g1]"
    using t [THEN conjunct2, THEN conjunct2, THEN conjunct2, THEN conjunct1]
    unfolding new_g_fresh by (auto simp: ok c0)
  have 4: "\<exists>sent' s'. syncGenerations (saveGenerationsWithImages_vps vps_down) [] s_synced [g_fresh, g1] = (sent', s') \<and>
      sent' = [BulkUpsertGenerations (delta_rows_vps vps_down s_synced [g_fresh, g1])] \<and>
      lastSyncedGenerationsRef s' = Some [''g1''] \<and>
      generations_sync_armed (Some ''u1'') s' [g_fresh, g1] \<and>
      fst (syncGenerations (saveGenerationsWithImages_vps vps_down) sent' s' [g_fresh, g1]) =
        [BulkUpsertGenerations (delta_rows_vps vps_down s_synced [g_fresh, g1]),
         BulkUpsertGenerations (delta_rows_vps vps_down s_synced [g_fresh, g1])]"
    using t [THEN conjunct2, THEN conjunct2, THEN conjunct2, THEN conjunct2, THEN conjunct1]
    unfolding new_g_fresh by (auto simp: down ls)
  have 5: "\<exists>c' s'. syncFavorites (saveFavoritesToCloud net0) cloud0 s_synced [] = (c', s') \<and>
      requests c' = [DeleteFavorites ''u1''] \<and> favorites_table c' = [] \<and>
      lastSyncedFavoritesRef s' = currentFavoritesKey []"
    using t [THEN conjunct2, THEN conjunct2, THEN conjunct2, THEN conjunct2, THEN conjunct2, THEN conjunct1]
    by (auto simp: c0)
  have 6: "\<exists>sent' s'. syncFavorites (saveFavoritesToCloud_vps vps_down) [] s_synced [] = (sent', s') \<and>
      sent' = [] \<and> lastSyncedFavoritesRef s' = currentFavoritesKey []"
    using t [THEN conjunct2, THEN conjunct2, THEN conjunct2, THEN conjunct2, THEN conjunct2, THEN conjunct2]
    by auto
  show ?thesis using new_g_fresh 1 2 3 4 5 6 by (intro conjI)
qed

text \<open>
  C7, as stated, fails for favorites: with \<open>a:0\<close> in the last-synced snapshot and the
  favorites \<open>a:0\<close> and \<open>b:1\<close>, the delta is \<open>b:1\<close> alone, yet the firing uploads both
  favorites: with the Supabase module it deletes the remote favorites and inserts both,
  with the VPS module it sends both in the bulk upsert.
\<close>

theorem favorites_sync_whole_set_counterexample:
  "favorites_delta s_synced [''a:0'', ''b:1''] = [''b:1''] \<and>
   requests (fst (syncFavorites (saveFavoritesToCloud net0) cloud0 s_synced [''a:0'', ''b:1''])) =
     [DeleteFavorites ''u1'',
      InsertFavorites [\<lparr>fav_user_id = ''u1'', fav_generation_id = ''a'', fav_image_index = Some 0\<rparr>,
                       \<lparr>fav_user_id = ''u1'', fav_generation_id = ''b'', fav_image_index = Some 1\<rparr>]] \<and>
   fst (syncFavorites (saveFavoritesToCloud_vps vps0) [] s_synced [''a:0'', ''b:1'']) =
     [BulkUpsertFavorites [\<lparr>generation_id = ''a'', image_index = Some 0\<rparr>,
                           \<lparr>generation_id = ''b'', image_index = Some 1\<rparr>]]"
proof -
  have a: "favorite_fields ''a:0'' = (''a'', Some 0)"
    by (simp add: favorite_fields_def parseInt10_def is_space_def is_digit_def digits_value_def
        digit_value_def Let_def)
  have b: "favorite_fields ''b:1'' = (''b'', Some 1)"
    by (simp add: favorite_fields_def parseInt10_def is_space_def is_digit_def digits_value_def
        digit_value_def Let_def)
  have d: "favorites_delta s_synced [''a:0'', ''b:1''] = [''b:1'']"
    by (simp add: favorites_delta_def s_synced_def initial_sync_def parse_or_empty_def)
  have s: "requests (fst (syncFavorites (saveFavoritesToCloud net0) cloud0 s_synced [''a:0'', ''b:1''])) =
     [DeleteFavorites ''u1'',
      InsertFavorites [\<lparr>fav_user_id = ''u1'', fav_generation_id = ''a'', fav_image_index = Some 0\<rparr>,
                       \<lparr>fav_user_id = ''u1'', fav_generation_id = ''b'', fav_image_index = Some 1\<rparr>]]"
    by (simp add: syncFavorites_def saveFavoritesToCloud_def favorite_rows_def insert_ok_def a b Let_def
        Array_from_def send_def cloud0_def net0_def)
  have v: "fst (syncFavorites (saveFavoritesToCloud_vps vps0) [] s_synced [''a:0'', ''b:1'']) =
     [BulkUpsertFavorites [\<lparr>generation_id = ''a'', image_index = Some 0\<rparr>,
                           \<lparr>generation_id = ''b'', image_index = Some 1\<rparr>]]"
    by (simp add: syncFavorites_def saveFavoritesToCloud_vps_def a b Let_def Array_from_def vps0_def)
  show ?thesis using d s v by (intro conjI)
qed

subsection \<open>Sign-in merge\<close>

lemma mset_onGenerationsLoaded:
  "mset (onGenerationsLoaded getTime cl local) =
     mset local + mset (filter (\<lambda>g. gen_id g \<notin> gen_id ` set local) cl)"
proof (cases "filter (\<lambda>g. gen_id g \<notin> gen_id ` set local) cl = []")
  case True
  then show ?thesis
    by (simp add: onGenerationsLoaded_def Let_def Set_has_def set_new_Set)
next
  case False
  then show ?thesis
    by (simp add: onGenerationsLoaded_def Let_def Set_has_def set_new_Set)
qed

lemma onGenerationsLoaded_local_wins:
  "(\<forall>g \<in> set (onGenerationsLoaded getTime cl local).
       g \<in> set local \<or> (gen_id g \<notin> gen_id ` set local \<and> g \<in> set cl)) \<and>
   (\<forall>l \<in> set local.
       l \<in> set (onGenerationsLoaded getTime cl local) \<and>
       mset (filter (\<lambda>g. gen_id g = gen_id l) (onGenerationsLoaded getTime cl local))
         = mset (filter (\<lambda>g. gen_id g = gen_id l) local))"
proof -
  define m where "m = onGenerationsLoaded getTime cl local"
  define added where "added = filter (\<lambda>g. gen_id g \<notin> gen_id ` set local) cl"
  have m: "mset m = mset local + mset added"
    unfolding m_def added_def by (rule mset_onGenerationsLoaded)
  have s: "set m = set local \<union> set added"
    using m by (metis set_mset_mset set_mset_union)
  have a: "\<forall>g \<in> set m. g \<in> set local \<or> (gen_id g \<notin> gen_id ` set local \<and> g \<in> set cl)"
    unfolding s added_def by auto
  have b: "\<forall>l \<in> set local. l \<in> set m \<and>
       mset (filter (\<lambda>g. gen_id g = gen_id l) m) = mset (filter (\<lambda>g. gen_id g = gen_id l) local)"
  proof
    fix l assume l: "l \<in> set local"
    have e: "filter (\<lambda>g. gen_id g = gen_id l) added = []"
      unfolding added_def using l by (auto simp: filter_empty_conv)
    have "mset (filter (\<lambda>g. gen_id g = gen_id l) m)
            = mset (filter (\<lambda>g. gen_id g = gen_id l) local) + mset (filter (\<lambda>g. gen_id g = gen_id l) added)"
      by (simp add: m)
    then have "mset (filter (\<lambda>g. gen_id g = gen_id l) m) = mset (filter (\<lambda>g. gen_id g = gen_id l) local)"
      unfolding e by simp
    moreover have "l \<in> set m" unfolding s using l by simp
    ultimately show "l \<in> set m \<and>
       mset (filter (\<lambda>g. gen_id g = gen_id l) m) = mset (filter (\<lambda>g. gen_id g = gen_id l) local)"
      by simp
  qed
  show ?thesis using a b unfolding m_def by blast
qed

lemma loadSettings_table: "generations_table (fst (loadSettingsFromCloud n c)) = generations_table c"
  by (simp add: loadSettingsFromCloud_def Let_def send_def split: option.splits)

lemma loadGenerations_from_table:
  "loadGenerationsFromCloud getTime n c = (c', Inr gs) \<Longrightarrow> set gs \<subseteq> fromDbFormat ` set (generations_table c)"
  by (auto simp: loadGenerationsFromCloud_def Let_def split: option.splits if_splits)

lemma syncWithCloud_generations:
  assumes "syncWithCloud getTime n c s gens favs p = (c', s', p')"
  shows "generations p' = generations p \<or>
         (\<exists>cl. set cl \<subseteq> fromDbFormat ` set (generations_table c) \<and>
               generations p' = onGenerationsLoaded getTime cl (generations p))"
proof -
  obtain c1 r1 where l1: "loadSettingsFromCloud n c = (c1, r1)" by (cases "loadSettingsFromCloud n c")
  obtain c2 r2 where l2: "loadGenerationsFromCloud getTime n c1 = (c2, r2)"
    by (cases "loadGenerationsFromCloud getTime n c1")
  obtain c3 r3 where l3: "loadFavoritesFromCloud n c2 = (c3, r3)" by (cases "loadFavoritesFromCloud n c2")
  have t1: "generations_table c1 = generations_table c" using loadSettings_table [of n c] l1 by simp
  show ?thesis
  proof (cases r2)
    case (Inl e)
    with assms l1 l2 l3 show ?thesis
      by (auto simp: syncWithCloud_def Let_def split: sum.splits)
  next
    case (Inr cloudGenerations)
    have sub: "set cloudGenerations \<subseteq> fromDbFormat ` set (generations_table c)"
      using loadGenerations_from_table l2 Inr t1 by metis
    let ?cl = "filter (\<lambda>g. \<not> Set_has (new_Set (map gen_id gens)) (gen_id g)) cloudGenerations"
    have "set ?cl \<subseteq> fromDbFormat ` set (generations_table c)" using sub by auto
    moreover have "generations p' = generations p \<or> generations p' = onGenerationsLoaded getTime ?cl (generations p)"
      using assms l1 l2 l3 Inr
      by (auto simp: syncWithCloud_def Let_def split: sum.splits prod.splits if_splits)
    ultimately show ?thesis by blast
  qed
qed

text \<open>
  C2. Whatever the sign-in merge does to the completed list, every record of the result
  either was in the local list or is a remote record whose id no local record has; and
  every local record is still there, the records that carry its id being exactly the
  local ones, as often as before (so a remote copy with the same id, whatever its
  prompt, is never taken).
\<close>

theorem sign_in_merge_local_wins:
  assumes "syncWithCloud getTime n c s gens favs p = (c', s', p')"
  shows "(\<forall>g \<in> set (generations p').
            g \<in> set (generations p) \<or>
            (gen_id g \<notin> gen_id ` set (generations p) \<and> g \<in> fromDbFormat ` set (generations_table c))) \<and>
         (\<forall>l \<in> set (generations p).
            l \<in> set (generations p') \<and>
            mset (filter (\<lambda>g. gen_id g = gen_id l) (generations p'))
              = mset (filter (\<lambda>g. gen_id g = gen_id l) (generations p)))"
proof -
  from syncWithCloud_generations [OF assms]
  consider "generations p' = generations p"
    | cl where "set cl \<subseteq> fromDbFormat ` set (generations_table c)"
        "generations p' = onGenerationsLoaded getTime cl (generations p)"
    by blast
  then show ?thesis
  proof cases
    case 1
    then show ?thesis by simp
  next
    case 2
    show ?thesis
      unfolding 2(2) using onGenerationsLoaded_local_wins [of getTime cl "generations p"] 2(1)
      by blast
  qed
qed

lemma merged_ab:
  "generations (snd (snd (syncWithCloud getTime0 net0 cloud_ab initial_sync [g1] [] p_local)))
     = [g1, fromDbFormat (toDbFormat g_fresh ''u1'')]"
  by (simp add: syncWithCloud_def loadSettingsFromCloud_def loadGenerationsFromCloud_def
      loadFavoritesFromCloud_def saveGenerationsWithImages_def saveFavoritesToCloud_def
      onGenerationsLoaded_def onFavoritesLoaded_def Let_def send_def cloud_ab_def cloud0_def net0_def
      p_local_def initial_page_def initial_sync_def new_Set_def Set_add_def Set_has_def
      toDbFormat_def fromDbFormat_def g1_def g_fresh_def getTime0_def Array_from_def)

theorem sign_in_merge_local_wins_witness:
  "\<exists>c' s' p'. syncWithCloud getTime0 net0 cloud_ab initial_sync [g1] [] p_local = (c', s', p') \<and>
      generations p' = [g1, fromDbFormat (toDbFormat g_fresh ''u1'')] \<and>
      filter (\<lambda>g. gen_id g = ''g1'') (generations p') = [g1] \<and>
      prompt g1 = ''a cat'' \<and>
      row_prompt (generations_table cloud_ab ! 0) = ''a remote cat'' \<and>
      row_id (generations_table cloud_ab ! 0) = ''g1''"
proof -
  obtain c' s' p' where run: "syncWithCloud getTime0 net0 cloud_ab initial_sync [g1] [] p_local = (c', s', p')"
    by (cases "syncWithCloud getTime0 net0 cloud_ab initial_sync [g1] [] p_local")
  have l: "g1 \<in> set (generations p_local)" by (simp add: p_local_def)
  from sign_in_merge_local_wins [OF run] l
  have "mset (filter (\<lambda>g. gen_id g = gen_id g1) (generations p'))
          = mset (filter (\<lambda>g. gen_id g = gen_id g1) (generations p_local))" by blast
  then have "mset (filter (\<lambda>g. gen_id g = gen_id g1) (generations p')) = {#g1#}"
    by (simp add: p_local_def)
  then have "filter (\<lambda>g. gen_id g = gen_id g1) (generations p') = [g1]"
    by (metis mset_single_iff_right mset.simps(1) mset.simps(2) add_mset_eq_single mset_zero_iff)
  then have f: "filter (\<lambda>g. gen_id g = ''g1'') (generations p') = [g1]"
    by (simp add: g1_def)
  have m: "generations p' = [g1, fromDbFormat (toDbFormat g_fresh ''u1'')]"
    using merged_ab run by simp
  have r: "prompt g1 = ''a cat'' \<and> row_prompt (generations_table cloud_ab ! 0) = ''a remote cat'' \<and>
      row_id (generations_table cloud_ab ! 0) = ''g1''"
    by (simp add: g1_def cloud_ab_def toDbFormat_def)
  show ?thesis using f m r by (simp add: run)
qed

end
